theory Spec2Isabelle
  imports Main "HOL-Library.AList" "HOL-Library.Char_ord" "HOL-Library.List_Lexorder"
    "HOL-Library.Sublist"
begin

section \<open>Data model\<close>

text \<open>
  A RawAsset is what \<^verbatim>\<open>response.json()\<close> returns: nested dicts, lists, strings,
  integers, booleans and \<^verbatim>\<open>None\<close>. A dict keeps its insertion order (\<^verbatim>\<open>items()\<close>
  iterates in it), so it is an association list; a Python dict has each key once.
  Characters are the code points 0..255, classified as Python's Unicode database
  classifies them. Floating point numbers are not part of the model.
\<close>

datatype json =
    JNull
  | JBool bool
  | JInt int
  | JStr string
  | JList "json list"
  | JDict "(string \<times> json) list"

type_synonym pydict = "(string \<times> json) list"

text \<open>The exceptions the traversal of a malformed record can raise, the \<^verbatim>\<open>ValueError\<close> of
  \<^verbatim>\<open>csv.DictWriter\<close> and the \<^verbatim>\<open>csv.Error\<close> of the reader.\<close>

datatype error = AttributeError | TypeError | KeyError | ValueError | CsvError

subsection \<open>Character classes\<close>

text \<open>\<^verbatim>\<open>str.isspace\<close>, which is also \<^verbatim>\<open>\s\<close> of \<^verbatim>\<open>re\<close> on a \<^verbatim>\<open>str\<close> pattern.\<close>

definition is_space :: "char \<Rightarrow> bool" where
  "is_space c = (let n = (of_char c :: nat) in
     (9 \<le> n \<and> n \<le> 13) \<or> (28 \<le> n \<and> n \<le> 32) \<or> n = 133 \<or> n = 160)"

text \<open>\<^verbatim>\<open>str.isalnum\<close> on the code points 0..255.\<close>

definition is_alnum :: "char \<Rightarrow> bool" where
  "is_alnum c = (let n = (of_char c :: nat) in
     (48 \<le> n \<and> n \<le> 57) \<or> (65 \<le> n \<and> n \<le> 90) \<or> (97 \<le> n \<and> n \<le> 122) \<or>
     n = 170 \<or> n = 178 \<or> n = 179 \<or> n = 181 \<or> n = 185 \<or> n = 186 \<or>
     (188 \<le> n \<and> n \<le> 190) \<or> (192 \<le> n \<and> n \<le> 214) \<or> (216 \<le> n \<and> n \<le> 246) \<or>
     248 \<le> n)"

text \<open>\<^verbatim>\<open>\w\<close> of \<^verbatim>\<open>re\<close>: alphanumeric or the underscore.\<close>

definition is_word :: "char \<Rightarrow> bool" where
  "is_word c = (is_alnum c \<or> c = CHR ''_'')"

subsection \<open>The string methods the code calls\<close>

text \<open>\<^verbatim>\<open>re.sub(r'[^\w\s-]', '', s)\<close>: every character matching the negated class is
  replaced by the empty string.\<close>

definition in_negated_class :: "char \<Rightarrow> bool" where
  "in_negated_class c = (\<not> (is_word c \<or> is_space c \<or> c = CHR ''-''))"

fun re_sub_nonword :: "string \<Rightarrow> string" where
  "re_sub_nonword [] = []"
| "re_sub_nonword (c # cs) =
     (if in_negated_class c then re_sub_nonword cs else c # re_sub_nonword cs)"

text \<open>\<^verbatim>\<open>s.strip()\<close>: leading and trailing whitespace removed.\<close>

definition lstrip :: "string \<Rightarrow> string" where
  "lstrip s = dropWhile is_space s"

definition rstrip :: "string \<Rightarrow> string" where
  "rstrip s = rev (dropWhile is_space (rev s))"

definition strip :: "string \<Rightarrow> string" where
  "strip s = rstrip (lstrip s)"

text \<open>\<^verbatim>\<open>s.replace(old, new)\<close>: the non-overlapping occurrences of \<^verbatim>\<open>old\<close>, found
  from the left, are replaced; an empty \<^verbatim>\<open>old\<close> matches before every character and
  at the end.\<close>

function replace :: "string \<Rightarrow> string \<Rightarrow> string \<Rightarrow> string" where
  "replace old new [] = (if old = [] then new else [])"
| "replace old new (c # cs) =
     (if old = [] then new @ c # replace old new cs
      else if take (length old) (c # cs) = old
        then new @ replace old new (drop (length old) (c # cs))
      else c # replace old new cs)"
  by pat_completeness auto
termination
  by (relation "measure (\<lambda>(old, new, s). length s)") auto

text \<open>The expression of \<^verbatim>\<open>flatten_metadata\<close> that cleans a trait name and a residual
  metadata key: \<^verbatim>\<open>re.sub(r'[^\w\s-]', '', x).strip().replace(' ', '_')\<close>.\<close>

definition sanitize :: "string \<Rightarrow> string" where
  "sanitize s = replace '' '' ''_'' (strip (re_sub_nonword s))"

text \<open>The sanitization as the specification words it: keep the alphanumeric characters,
  the underscore, whitespace and the hyphen; trim; replace every run of whitespace by one
  underscore.\<close>

definition kept_char :: "char \<Rightarrow> bool" where
  "kept_char c = (is_alnum c \<or> c = CHR ''_'' \<or> is_space c \<or> c = CHR ''-'')"

function collapse_runs :: "string \<Rightarrow> string" where
  "collapse_runs [] = []"
| "collapse_runs (c # cs) =
     (if is_space c then CHR ''_'' # collapse_runs (dropWhile is_space cs)
      else c # collapse_runs cs)"
  by pat_completeness auto
termination
  by (relation "measure length") (auto simp: less_Suc_eq_le length_dropWhile_le)

definition sanitize_spec :: "string \<Rightarrow> string" where
  "sanitize_spec s =
     collapse_runs (strip (filter kept_char s))"

text \<open>The same with the last step as the code has it: every space character becomes an
  underscore, one for one, and no other character changes.\<close>

definition space_to_underscore :: "char \<Rightarrow> char" where
  "space_to_underscore c = (if c = CHR '' '' then CHR ''_'' else c)"

definition sanitize_each_space :: "string \<Rightarrow> string" where
  "sanitize_each_space s =
     map space_to_underscore
       (strip (filter kept_char s))"

subsection \<open>Built-in functions on values\<close>

text \<open>\<^verbatim>\<open>bool(x)\<close>, the test of \<^verbatim>\<open>if x\<close>, \<^verbatim>\<open>not x\<close> and \<^verbatim>\<open>x or y\<close>.\<close>

fun truthy :: "json \<Rightarrow> bool" where
  "truthy JNull = False"
| "truthy (JBool b) = b"
| "truthy (JInt n) = (n \<noteq> 0)"
| "truthy (JStr s) = (s \<noteq> [])"
| "truthy (JList xs) = (xs \<noteq> [])"
| "truthy (JDict kvs) = (kvs \<noteq> [])"

text \<open>\<^verbatim>\<open>d.get(k, default)\<close> on a dict.\<close>

definition dict_get :: "pydict \<Rightarrow> string \<Rightarrow> json \<Rightarrow> json" where
  "dict_get d k dflt = (case map_of d k of None \<Rightarrow> dflt | Some v \<Rightarrow> v)"

text \<open>\<^verbatim>\<open>x.get(k, default)\<close> on any value: only a dict has the method.\<close>

fun get :: "json \<Rightarrow> string \<Rightarrow> json \<Rightarrow> error + json" where
  "get (JDict d) k dflt = Inr (dict_get d k dflt)"
| "get v k dflt = Inl AttributeError"

text \<open>\<^verbatim>\<open>d[k] = v\<close>: a present key keeps its place, a new one goes last.\<close>

definition set_item :: "pydict \<Rightarrow> string \<Rightarrow> json \<Rightarrow> pydict" where
  "set_item d k v = AList.update k v d"

text \<open>\<^verbatim>\<open>sep.join(xs)\<close>.\<close>

fun join :: "string \<Rightarrow> string list \<Rightarrow> string" where
  "join sep [] = []"
| "join sep [x] = x"
| "join sep (x # y # ys) = x @ sep @ join sep (y # ys)"

text \<open>Decimal digits of a natural number and \<^verbatim>\<open>str\<close> of an \<^verbatim>\<open>int\<close>.\<close>

fun str_nat :: "nat \<Rightarrow> string" where
  "str_nat n =
     (if n < 10 then [char_of (48 + n)]
      else str_nat (n div 10) @ [char_of (48 + n mod 10)])"

declare str_nat.simps [simp del]

definition str_int :: "int \<Rightarrow> string" where
  "str_int i = (if i < 0 then CHR ''-'' # str_nat (nat (- i)) else str_nat (nat i))"

definition hex_digit :: "nat \<Rightarrow> char" where
  "hex_digit n = (if n < 10 then char_of (48 + n) else char_of (87 + n))"

definition hex2 :: "char \<Rightarrow> string" where
  "hex2 c = [hex_digit ((of_char c :: nat) div 16), hex_digit ((of_char c :: nat) mod 16)]"

text \<open>\<^verbatim>\<open>repr\<close> of a \<^verbatim>\<open>str\<close>: single quotes, unless the string has a single quote and no
  double quote; the quote and the backslash are escaped, tab, newline and carriage return
  have their short escapes, every other non-printable character is \<^verbatim>\<open>\xhh\<close>.\<close>

definition repr_quote :: "string \<Rightarrow> char" where
  "repr_quote s =
     (if CHR 0x27 \<in> set s \<and> CHR 0x22 \<notin> set s then CHR 0x22 else CHR 0x27)"

definition is_printable :: "char \<Rightarrow> bool" where
  "is_printable c = (let n = (of_char c :: nat) in
     \<not> (n < 32 \<or> (127 \<le> n \<and> n \<le> 160) \<or> n = 173))"

definition repr_char :: "char \<Rightarrow> char \<Rightarrow> string" where
  "repr_char q c =
     (if c = q \<or> c = CHR 0x5C then [CHR 0x5C, c]
      else if c = CHR 0x09 then [CHR 0x5C, CHR ''t'']
      else if c = CHR 0x0A then [CHR 0x5C, CHR ''n'']
      else if c = CHR 0x0D then [CHR 0x5C, CHR ''r'']
      else if is_printable c then [c]
      else CHR 0x5C # CHR ''x'' # hex2 c)"

definition repr_str :: "string \<Rightarrow> string" where
  "repr_str s =
     (let q = repr_quote s in q # concat (map (repr_char q) s) @ [q])"

text \<open>\<^verbatim>\<open>repr(x)\<close> and \<^verbatim>\<open>str(x)\<close>: they differ on strings only.\<close>

fun py_repr :: "json \<Rightarrow> string" where
  "py_repr JNull = ''None''"
| "py_repr (JBool b) = (if b then ''True'' else ''False'')"
| "py_repr (JInt n) = str_int n"
| "py_repr (JStr s) = repr_str s"
| "py_repr (JList xs) = ''['' @ join '', '' (map py_repr xs) @ '']''"
| "py_repr (JDict kvs) =
     ''{'' @ join '', '' (map (\<lambda>(k, v). repr_str k @ '': '' @ py_repr v) kvs) @ ''}''"

fun py_str :: "json \<Rightarrow> string" where
  "py_str (JStr s) = s"
| "py_str v = py_repr v"

text \<open>\<^verbatim>\<open>json.dumps(x)\<close> with its defaults: \<^verbatim>\<open>ensure_ascii\<close>, separators
  \<^verbatim>\<open>', '\<close> and \<^verbatim>\<open>': '\<close>.\<close>

definition json_escape_char :: "char \<Rightarrow> string" where
  "json_escape_char c =
     (if c = CHR 0x22 then [CHR 0x5C, CHR 0x22]
      else if c = CHR 0x5C then [CHR 0x5C, CHR 0x5C]
      else if c = CHR 0x0A then [CHR 0x5C, CHR ''n'']
      else if c = CHR 0x0D then [CHR 0x5C, CHR ''r'']
      else if c = CHR 0x09 then [CHR 0x5C, CHR ''t'']
      else if c = CHR 0x08 then [CHR 0x5C, CHR ''b'']
      else if c = CHR 0x0C then [CHR 0x5C, CHR ''f'']
      else if (of_char c :: nat) < 32 \<or> 126 < (of_char c :: nat)
        then CHR 0x5C # CHR ''u'' # CHR ''0'' # CHR ''0'' # hex2 c
      else [c])"

definition json_string :: "string \<Rightarrow> string" where
  "json_string s = CHR 0x22 # concat (map json_escape_char s) @ [CHR 0x22]"

fun json_dumps :: "json \<Rightarrow> string" where
  "json_dumps JNull = ''null''"
| "json_dumps (JBool b) = (if b then ''true'' else ''false'')"
| "json_dumps (JInt n) = str_int n"
| "json_dumps (JStr s) = json_string s"
| "json_dumps (JList xs) = ''['' @ join '', '' (map json_dumps xs) @ '']''"
| "json_dumps (JDict kvs) =
     ''{'' @ join '', '' (map (\<lambda>(k, v). json_string k @ '': '' @ json_dumps v) kvs) @ ''}''"

text \<open>\<^verbatim>\<open>k in x\<close> for a string \<^verbatim>\<open>k\<close>: a key of a dict, an element of a list, a
  substring of a string; any other value is not a container.\<close>

fun is_substring :: "string \<Rightarrow> string \<Rightarrow> bool" where
  "is_substring k [] = (k = [])"
| "is_substring k (c # cs) = (take (length k) (c # cs) = k \<or> is_substring k cs)"

fun contains :: "json \<Rightarrow> string \<Rightarrow> error + bool" where
  "contains (JDict d) k = Inr (k \<in> set (map fst d))"
| "contains (JList xs) k = Inr (JStr k \<in> set xs)"
| "contains (JStr s) k = Inr (is_substring k s)"
| "contains v k = Inl TypeError"

text \<open>\<^verbatim>\<open>x[k]\<close> for a string \<^verbatim>\<open>k\<close>: a list or a string has integer indices only.\<close>

fun subscript :: "json \<Rightarrow> string \<Rightarrow> error + json" where
  "subscript (JDict d) k = (case map_of d k of None \<Rightarrow> Inl KeyError | Some v \<Rightarrow> Inr v)"
| "subscript v k = Inl TypeError"

text \<open>What \<^verbatim>\<open>for x in v\<close> iterates over: the elements of a list, the keys of a dict,
  the characters of a string.\<close>

fun iterate :: "json \<Rightarrow> error + json list" where
  "iterate (JList xs) = Inr xs"
| "iterate (JDict d) = Inr (map (\<lambda>kv. JStr (fst kv)) d)"
| "iterate (JStr s) = Inr (map (\<lambda>c. JStr [c]) s)"
| "iterate v = Inl TypeError"

section \<open>YearNameFilter\<close>

text \<open>The pattern \<^verbatim>\<open>^(199[0-9]|20[01][0-9]|202[0-5])\<close>: three alternatives, each a
  sequence of four character sets, matched at the start of the string.\<close>

datatype atom = Lit char | Range char char | OneOf "char list"

fun atom_matches :: "atom \<Rightarrow> char \<Rightarrow> bool" where
  "atom_matches (Lit a) c = (c = a)"
| "atom_matches (Range lo hi) c =
     ((of_char lo :: nat) \<le> of_char c \<and> (of_char c :: nat) \<le> of_char hi)"
| "atom_matches (OneOf cs) c = (c \<in> set cs)"

fun seq_matches :: "atom list \<Rightarrow> string \<Rightarrow> bool" where
  "seq_matches [] s = True"
| "seq_matches (a # as) [] = False"
| "seq_matches (a # as) (c # cs) = (atom_matches a c \<and> seq_matches as cs)"

definition year_pattern :: "atom list list" where
  "year_pattern =
     [[Lit CHR ''1'', Lit CHR ''9'', Lit CHR ''9'', Range CHR ''0'' CHR ''9''],
      [Lit CHR ''2'', Lit CHR ''0'', OneOf ''01'', Range CHR ''0'' CHR ''9''],
      [Lit CHR ''2'', Lit CHR ''0'', Lit CHR ''2'', Range CHR ''0'' CHR ''5'']]"

definition year_pattern_match :: "string \<Rightarrow> bool" where
  "year_pattern_match s = list_ex (\<lambda>alt. seq_matches alt s) year_pattern"

text \<open>The name of a record in \<^verbatim>\<open>main.py\<close>:
  \<^verbatim>\<open>nft.get('content', {}).get('metadata', {}).get('name') or
  nft.get('content', {}).get('name') or nft.get('name', '')\<close>.\<close>

definition name_main :: "pydict \<Rightarrow> error + json" where
  "name_main nft =
     (case get (dict_get nft ''content'' (JDict [])) ''metadata'' (JDict []) of
        Inl e \<Rightarrow> Inl e
      | Inr metadata \<Rightarrow>
     (case get metadata ''name'' JNull of
        Inl e \<Rightarrow> Inl e
      | Inr n1 \<Rightarrow>
     if truthy n1 then Inr n1
     else (case get (dict_get nft ''content'' (JDict [])) ''name'' JNull of
        Inl e \<Rightarrow> Inl e
      | Inr n2 \<Rightarrow>
     if truthy n2 then Inr n2
     else Inr (dict_get nft ''name'' (JStr [])))))"

text \<open>The name of a record in \<^verbatim>\<open>nft_extractor.py\<close>, lines 33 to 40: first the
  block under \<^verbatim>\<open>if 'content' in nft and 'metadata' in nft['content']\<close>, then the two
  fallbacks.\<close>

definition name_in_metadata :: "pydict \<Rightarrow> error + json" where
  "name_in_metadata nft =
     (if ''content'' \<in> set (map fst nft) then
        (case subscript (JDict nft) ''content'' of
           Inl e \<Rightarrow> Inl e
         | Inr content \<Rightarrow>
        (case contains content ''metadata'' of
           Inl e \<Rightarrow> Inl e
         | Inr False \<Rightarrow> Inr (JStr [])
         | Inr True \<Rightarrow>
        (case subscript content ''metadata'' of
           Inl e \<Rightarrow> Inl e
         | Inr metadata \<Rightarrow>
        (case get metadata ''name'' JNull of
           Inl e \<Rightarrow> Inl e
         | Inr n \<Rightarrow>
        if truthy n then Inr n else get metadata ''title'' (JStr [])))))
      else Inr (JStr []))"

definition name_rest :: "pydict \<Rightarrow> error + json" where
  "name_rest nft =
     (case name_in_metadata nft of
        Inl e \<Rightarrow> Inl e
      | Inr name1 \<Rightarrow>
     (case (if \<not> truthy name1 \<and> ''content'' \<in> set (map fst nft)
            then (case subscript (JDict nft) ''content'' of
                    Inl e \<Rightarrow> Inl e
                  | Inr content \<Rightarrow> get content ''name'' (JStr []))
            else Inr name1) of
        Inl e \<Rightarrow> Inl e
      | Inr name2 \<Rightarrow>
     if \<not> truthy name2 then Inr (dict_get nft ''name'' (JStr [])) else Inr name2))"

text \<open>The loop of \<^verbatim>\<open>filter_nfts_by_year\<close>, with the way the name is found as a
  parameter; \<^verbatim>\<open>filtered\<close> is the list \<^verbatim>\<open>filtered_nfts\<close> built so far.\<close>

fun filter_loop ::
  "(pydict \<Rightarrow> error + json) \<Rightarrow> pydict list \<Rightarrow> pydict list \<Rightarrow> error + pydict list" where
  "filter_loop name_of [] filtered = Inr filtered"
| "filter_loop name_of (nft # nfts) filtered =
     (case name_of nft of
        Inl e \<Rightarrow> Inl e
      | Inr name \<Rightarrow>
          if truthy name \<and> year_pattern_match (py_str name)
          then filter_loop name_of nfts (filtered @ [nft])
          else filter_loop name_of nfts filtered)"

text \<open>\<^verbatim>\<open>filter_nfts_by_year\<close> of \<^verbatim>\<open>main.py\<close> and of \<^verbatim>\<open>nft_extractor.py\<close>.\<close>

definition filter_nfts_by_year_main :: "pydict list \<Rightarrow> error + pydict list" where
  "filter_nfts_by_year_main nfts = filter_loop name_main nfts []"

definition filter_nfts_by_year_rest :: "pydict list \<Rightarrow> error + pydict list" where
  "filter_nfts_by_year_rest nfts = filter_loop name_rest nfts []"

text \<open>The reading the specification gives of the pattern: the first four characters are
  decimal digits and the number they write is between 1990 and 2025.\<close>

definition is_digit :: "char \<Rightarrow> bool" where
  "is_digit c = ((48::nat) \<le> of_char c \<and> (of_char c :: nat) \<le> 57)"

definition digit_value :: "char \<Rightarrow> nat" where
  "digit_value c = of_char c - 48"

definition year_of_prefix :: "string \<Rightarrow> nat option" where
  "year_of_prefix s =
     (case s of
        a # b # c # d # rest \<Rightarrow>
          if is_digit a \<and> is_digit b \<and> is_digit c \<and> is_digit d
          then Some (1000 * digit_value a + 100 * digit_value b + 10 * digit_value c
                     + digit_value d)
          else None
      | _ \<Rightarrow> None)"

definition starts_with_year :: "string \<Rightarrow> bool" where
  "starts_with_year s =
     (case year_of_prefix s of None \<Rightarrow> False | Some y \<Rightarrow> 1990 \<le> y \<and> y \<le> 2025)"

text \<open>A record the specification retains: one whose name is found, is not empty, and
  starts with a year.\<close>

definition has_year_name :: "(pydict \<Rightarrow> error + json) \<Rightarrow> pydict \<Rightarrow> bool" where
  "has_year_name name_of nft =
     (case name_of nft of
        Inl e \<Rightarrow> False
      | Inr v \<Rightarrow> truthy v \<and> starts_with_year (py_str v))"

text \<open>The precedence the specification gives for the name: the first candidate that is
  not empty.\<close>

fun first_nonempty :: "json option list \<Rightarrow> json option" where
  "first_nonempty [] = None"
| "first_nonempty (None # cs) = first_nonempty cs"
| "first_nonempty (Some v # cs) = (if truthy v then Some v else first_nonempty cs)"

text \<open>The field \<^verbatim>\<open>k\<close> of the sub-object \<^verbatim>\<open>x\<close>, when \<^verbatim>\<open>x\<close> is there and is a dict.\<close>

definition subfield :: "json option \<Rightarrow> string \<Rightarrow> json option" where
  "subfield x k = (case x of Some (JDict d) \<Rightarrow> map_of d k | _ \<Rightarrow> None)"

definition candidates_main :: "pydict \<Rightarrow> json option list" where
  "candidates_main nft =
     [subfield (subfield (map_of nft ''content'') ''metadata'') ''name'',
      subfield (map_of nft ''content'') ''name'',
      map_of nft ''name'']"

definition candidates_rest :: "pydict \<Rightarrow> json option list" where
  "candidates_rest nft =
     [subfield (subfield (map_of nft ''content'') ''metadata'') ''name'',
      subfield (subfield (map_of nft ''content'') ''metadata'') ''title'',
      subfield (map_of nft ''content'') ''name'',
      map_of nft ''name'']"

text \<open>The shape under which the name lookup raises nothing: \<^verbatim>\<open>content\<close> and
  \<^verbatim>\<open>content.metadata\<close>, where present, are dicts.\<close>

definition name_shape_ok :: "pydict \<Rightarrow> bool" where
  "name_shape_ok nft =
     (case map_of nft ''content'' of
        None \<Rightarrow> True
      | Some (JDict c) \<Rightarrow>
          (case map_of c ''metadata'' of
             None \<Rightarrow> True
           | Some (JDict m) \<Rightarrow> True
           | Some v \<Rightarrow> False)
      | Some v \<Rightarrow> False)"

section \<open>MetadataFlattener\<close>

text \<open>The loop over \<^verbatim>\<open>enumerate(attributes)\<close>; \<^verbatim>\<open>i\<close> is the index of the first entry
  of the list that is left.\<close>

fun attributes_loop :: "nat \<Rightarrow> json list \<Rightarrow> pydict \<Rightarrow> pydict" where
  "attributes_loop i [] flattened = flattened"
| "attributes_loop i (attr # attrs) flattened =
     (case attr of
        JDict d \<Rightarrow>
          (let trait_type = dict_get d ''trait_type'' (JStr (''attribute_'' @ str_nat i));
               val = dict_get d ''value'' (JStr []);
               clean_trait = sanitize (py_str trait_type)
           in attributes_loop (Suc i) attrs (set_item flattened (''trait_'' @ clean_trait) val))
      | _ \<Rightarrow> attributes_loop (Suc i) attrs flattened)"

text \<open>The loop over \<^verbatim>\<open>grouping\<close>, left at the first group whose key is
  \<^verbatim>\<open>'collection'\<close>.\<close>

fun grouping_loop :: "json list \<Rightarrow> pydict \<Rightarrow> error + pydict" where
  "grouping_loop [] flattened = Inr flattened"
| "grouping_loop (grp # groups) flattened =
     (case get grp ''group_key'' JNull of
        Inl e \<Rightarrow> Inl e
      | Inr k \<Rightarrow>
          if k = JStr ''collection''
          then (case get grp ''group_value'' (JStr []) of
                  Inl e \<Rightarrow> Inl e
                | Inr v \<Rightarrow> Inr (set_item flattened ''collection_address'' v))
          else grouping_loop groups flattened)"

definition fixed_keys :: "string list" where
  "fixed_keys =
     [''name'', ''symbol'', ''description'', ''image'', ''animation_url'', ''external_url'',
      ''attributes'']"

text \<open>\<^verbatim>\<open>json.dumps(value) if isinstance(value, (dict, list)) else str(value)\<close>.\<close>

fun residual_text :: "json \<Rightarrow> string" where
  "residual_text (JDict d) = json_dumps (JDict d)"
| "residual_text (JList xs) = json_dumps (JList xs)"
| "residual_text v = py_str v"

text \<open>The loop over \<^verbatim>\<open>metadata.items()\<close>.\<close>

fun residual_loop :: "(string \<times> json) list \<Rightarrow> pydict \<Rightarrow> pydict" where
  "residual_loop [] flattened = flattened"
| "residual_loop ((key, val) # items) flattened =
     (if key \<notin> set fixed_keys
      then (let clean_key = sanitize key
            in residual_loop items
                 (set_item flattened (''metadata_'' @ clean_key) (JStr (residual_text val))))
      else residual_loop items flattened)"

text \<open>Sequencing of two steps, the first of which may raise.\<close>

definition bind_err :: "error + 'a \<Rightarrow> ('a \<Rightarrow> error + 'b) \<Rightarrow> error + 'b" where
  "bind_err m f = (case m of Inl e \<Rightarrow> Inl e | Inr x \<Rightarrow> f x)"

text \<open>\<^verbatim>\<open>flatten_metadata\<close>, statement by statement; an exception leaves the function
  with the row unfinished.\<close>

definition flatten_metadata :: "pydict \<Rightarrow> error + pydict" where
  "flatten_metadata nft =
     (let flattened = set_item [] ''mint_address'' (dict_get nft ''id'' (JStr [])) in
      bind_err (get (dict_get nft ''ownership'' (JDict [])) ''owner'' (JStr [])) (\<lambda>owner.
      let flattened = set_item flattened ''owner'' owner in
      bind_err (get (dict_get nft ''ownership'' (JDict [])) ''frozen'' (JBool False)) (\<lambda>frozen.
      let flattened = set_item flattened ''frozen'' frozen in
      bind_err (get (dict_get nft ''ownership'' (JDict [])) ''delegated'' (JBool False)) (\<lambda>delegated.
      let flattened = set_item flattened ''delegated'' delegated;
          content = dict_get nft ''content'' (JDict []) in
      bind_err (get content ''metadata'' (JDict [])) (\<lambda>metadata.
      bind_err (get metadata ''name'' (JStr [])) (\<lambda>name.
      let flattened = set_item flattened ''name'' name in
      bind_err (get metadata ''symbol'' (JStr [])) (\<lambda>symbol.
      let flattened = set_item flattened ''symbol'' symbol in
      bind_err (get metadata ''description'' (JStr [])) (\<lambda>description.
      let flattened = set_item flattened ''description'' description in
      bind_err (get metadata ''image'' (JStr [])) (\<lambda>image.
      let flattened = set_item flattened ''image'' image in
      bind_err (get metadata ''animation_url'' (JStr [])) (\<lambda>animation_url.
      let flattened = set_item flattened ''animation_url'' animation_url in
      bind_err (get metadata ''external_url'' (JStr [])) (\<lambda>external_url.
      let flattened = set_item flattened ''external_url'' external_url in
      bind_err (get metadata ''attributes'' (JList [])) (\<lambda>attributes.
      let flattened = (case attributes of
                         JList attrs \<Rightarrow> attributes_loop 0 attrs flattened
                       | _ \<Rightarrow> flattened);
          grouping = dict_get nft ''grouping'' (JList []) in
      bind_err (iterate grouping) (\<lambda>groups.
      bind_err (grouping_loop groups flattened) (\<lambda>flattened.
      let royalty = dict_get nft ''royalty'' (JDict []) in
      bind_err (get royalty ''percent'' (JInt 0)) (\<lambda>percent.
      let flattened = set_item flattened ''royalty_percent'' percent in
      bind_err (get royalty ''locked'' (JBool False)) (\<lambda>locked.
      let flattened = set_item flattened ''royalty_locked'' locked;
          supply = dict_get nft ''supply'' (JDict []) in
      bind_err (get supply ''print_max_supply'' (JInt 0)) (\<lambda>print_max_supply.
      let flattened = set_item flattened ''supply_print_max_supply'' print_max_supply in
      bind_err (get supply ''print_current_supply'' (JInt 0)) (\<lambda>print_current_supply.
      let flattened = set_item flattened ''supply_print_current_supply'' print_current_supply in
      bind_err (get supply ''edition_nonce'' (JStr [])) (\<lambda>edition_nonce.
      let flattened = set_item flattened ''supply_edition_nonce'' edition_nonce in
      case metadata of
        JDict items \<Rightarrow> Inr (residual_loop items flattened)
      | _ \<Rightarrow> Inl AttributeError)))))))))))))))))))"

text \<open>The metadata dict and the attributes list of a record, empty where absent.\<close>

definition metadata_of :: "pydict \<Rightarrow> pydict" where
  "metadata_of nft =
     (case dict_get nft ''content'' (JDict []) of
        JDict content \<Rightarrow>
          (case dict_get content ''metadata'' (JDict []) of JDict m \<Rightarrow> m | _ \<Rightarrow> [])
      | _ \<Rightarrow> [])"

definition attributes_of :: "pydict \<Rightarrow> json list" where
  "attributes_of nft =
     (case dict_get (metadata_of nft) ''attributes'' (JList []) of JList xs \<Rightarrow> xs | _ \<Rightarrow> [])"

text \<open>The column an entry of the attributes list is written to and the value written, for
  an entry that is a dict; \<^verbatim>\<open>i\<close> is the index of the entry.\<close>

definition trait_column :: "nat \<Rightarrow> json \<Rightarrow> string option" where
  "trait_column i attr =
     (case attr of
        JDict d \<Rightarrow>
          Some (''trait_'' @
                sanitize (py_str (dict_get d ''trait_type'' (JStr (''attribute_'' @ str_nat i)))))
      | _ \<Rightarrow> None)"

definition attr_value :: "json \<Rightarrow> json" where
  "attr_value attr = (case attr of JDict d \<Rightarrow> dict_get d ''value'' (JStr []) | _ \<Rightarrow> JStr [])"

text \<open>The row after the first ten assignments, for the ownership and metadata dicts of
  the record, and the five assignments from \<^verbatim>\<open>royalty\<close> and \<^verbatim>\<open>supply\<close>.\<close>

definition set_items :: "(string \<times> json) list \<Rightarrow> pydict \<Rightarrow> pydict" where
  "set_items kvs flattened = fold (\<lambda>kv fl. set_item fl (fst kv) (snd kv)) kvs flattened"

definition head_fields :: "pydict \<Rightarrow> pydict \<Rightarrow> pydict \<Rightarrow> pydict" where
  "head_fields nft ownership metadata =
     set_items
       [(''mint_address'', dict_get nft ''id'' (JStr [])),
        (''owner'', dict_get ownership ''owner'' (JStr [])),
        (''frozen'', dict_get ownership ''frozen'' (JBool False)),
        (''delegated'', dict_get ownership ''delegated'' (JBool False)),
        (''name'', dict_get metadata ''name'' (JStr [])),
        (''symbol'', dict_get metadata ''symbol'' (JStr [])),
        (''description'', dict_get metadata ''description'' (JStr [])),
        (''image'', dict_get metadata ''image'' (JStr [])),
        (''animation_url'', dict_get metadata ''animation_url'' (JStr [])),
        (''external_url'', dict_get metadata ''external_url'' (JStr []))] []"

definition tail_fields :: "pydict \<Rightarrow> pydict \<Rightarrow> pydict \<Rightarrow> pydict" where
  "tail_fields royalty supply flattened =
     set_items
       [(''royalty_percent'', dict_get royalty ''percent'' (JInt 0)),
        (''royalty_locked'', dict_get royalty ''locked'' (JBool False)),
        (''supply_print_max_supply'', dict_get supply ''print_max_supply'' (JInt 0)),
        (''supply_print_current_supply'', dict_get supply ''print_current_supply'' (JInt 0)),
        (''supply_edition_nonce'', dict_get supply ''edition_nonce'' (JStr []))] flattened"

text \<open>The value a call leaves in a column of the row it returns.\<close>

definition column :: "error + pydict \<Rightarrow> string \<Rightarrow> json option" where
  "column result c = (case result of Inl e \<Rightarrow> None | Inr row \<Rightarrow> map_of row c)"

section \<open>CsvExporter\<close>

subsection \<open>The writer of the \<^verbatim>\<open>csv\<close> module\<close>

text \<open>\<^verbatim>\<open>csv.writer\<close> with the default dialect: delimiter \<^verbatim>\<open>,\<close>, quote character
  \<^verbatim>\<open>"\<close>, doubled inside a quoted field, minimal quoting, line terminator
  \<^verbatim>\<open>\r\n\<close>. A string is written as it is, \<^verbatim>\<open>None\<close> as the empty string, any other
  value as its \<^verbatim>\<open>str\<close>.\<close>

fun csv_cell :: "json \<Rightarrow> string" where
  "csv_cell (JStr s) = s"
| "csv_cell JNull = []"
| "csv_cell v = py_str v"

definition needs_quote :: "char \<Rightarrow> bool" where
  "needs_quote c = (c = CHR '','' \<or> c = CHR 0x22 \<or> c = CHR 0x0D \<or> c = CHR 0x0A)"

definition double_quotes :: "string \<Rightarrow> string" where
  "double_quotes s = concat (map (\<lambda>c. if c = CHR 0x22 then [c, c] else [c]) s)"

definition csv_field :: "string \<Rightarrow> string" where
  "csv_field s =
     (if list_ex needs_quote s then CHR 0x22 # double_quotes s @ [CHR 0x22] else s)"

text \<open>One record; a record of one empty field is written as \<^verbatim>\<open>""\<close>.\<close>

definition csv_record :: "string list \<Rightarrow> string" where
  "csv_record fields =
     (if fields = [[]] then [CHR 0x22, CHR 0x22] else join '','' (map csv_field fields))
     @ [CHR 0x0D, CHR 0x0A]"

definition writerow :: "json list \<Rightarrow> string" where
  "writerow row = csv_record (map csv_cell row)"

text \<open>\<^verbatim>\<open>csv.DictWriter(csvfile, fieldnames)\<close>: \<^verbatim>\<open>writeheader\<close> writes the field names,
  \<^verbatim>\<open>writerow\<close> the values of a dict in the order of the field names, the empty string
  for a missing key, and raises on a key that is no field name.\<close>

definition dict_writeheader :: "string list \<Rightarrow> string" where
  "dict_writeheader fieldnames = writerow (map JStr fieldnames)"

definition dict_to_list :: "string list \<Rightarrow> pydict \<Rightarrow> json list" where
  "dict_to_list fieldnames rowdict = map (\<lambda>key. dict_get rowdict key (JStr [])) fieldnames"

definition dict_writerow :: "string list \<Rightarrow> pydict \<Rightarrow> error + string" where
  "dict_writerow fieldnames rowdict =
     (if list_ex (\<lambda>k. k \<notin> set fieldnames) (map fst rowdict) then Inl ValueError
      else Inr (writerow (dict_to_list fieldnames rowdict)))"

subsection \<open>\<^verbatim>\<open>export_to_csv\<close>\<close>

text \<open>What the function acts on: the files, by name, and the warnings shown to the user.\<close>

record world =
  files :: "string \<rightharpoonup> string"
  warnings :: "string list"

text \<open>The first loop: every record is flattened and its keys are added to
  \<^verbatim>\<open>all_fields\<close>.\<close>

fun flatten_loop ::
  "pydict list \<Rightarrow> pydict list \<Rightarrow> string set \<Rightarrow> error + (pydict list \<times> string set)" where
  "flatten_loop [] flattened_nfts all_fields = Inr (flattened_nfts, all_fields)"
| "flatten_loop (nft # nfts) flattened_nfts all_fields =
     bind_err (flatten_metadata nft) (\<lambda>flattened.
       flatten_loop nfts (flattened_nfts @ [flattened]) (all_fields \<union> set (map fst flattened)))"

text \<open>The second loop: every flattened record is projected on the field names and
  written.\<close>

fun write_loop :: "string list \<Rightarrow> pydict list \<Rightarrow> string \<Rightarrow> error + string" where
  "write_loop fieldnames [] text = Inr text"
| "write_loop fieldnames (nft # flattened_nfts) text =
     (let row = map (\<lambda>field. (field, dict_get nft field (JStr []))) fieldnames in
      bind_err (dict_writerow fieldnames row) (\<lambda>line.
        write_loop fieldnames flattened_nfts (text @ line)))"

text \<open>\<^verbatim>\<open>export_to_csv(nfts, filename)\<close>; \<^verbatim>\<open>now\<close> is what
  \<^verbatim>\<open>datetime.now().strftime("%Y%m%d_%H%M%S")\<close> gives at the call. The result is the
  value returned, \<^verbatim>\<open>None\<close> or the file name, and the world after the call. Opening the
  file for writing is taken to succeed.\<close>

definition export_to_csv ::
  "pydict list \<Rightarrow> string option \<Rightarrow> string \<Rightarrow> world \<Rightarrow> error + (string option \<times> world)" where
  "export_to_csv nfts filename now w =
     (if nfts = [] then
        Inr (None, w\<lparr>warnings := warnings w @ [''No NFTs to export'']\<rparr>)
      else
        (let filename = (case filename of
                           None \<Rightarrow> ''nft_metadata_'' @ now @ ''.csv''
                         | Some f \<Rightarrow> f) in
         bind_err (flatten_loop nfts [] {}) (\<lambda>(flattened_nfts, all_fields).
         let fieldnames = sorted_list_of_set all_fields in
         bind_err (write_loop fieldnames flattened_nfts (dict_writeheader fieldnames)) (\<lambda>text.
         Inr (Some filename, w\<lparr>files := (files w)(filename \<mapsto> text)\<rparr>)))))"

text \<open>The flattened rows of a list of records, as the first loop leaves them.\<close>

fun flat_rows :: "pydict list \<Rightarrow> error + pydict list" where
  "flat_rows [] = Inr []"
| "flat_rows (nft # nfts) =
     bind_err (flatten_metadata nft) (\<lambda>row.
       bind_err (flat_rows nfts) (\<lambda>rows. Inr (row # rows)))"

text \<open>The header of the specification: the sorted union of the keys of the rows; and the
  projection of a row on a header.\<close>

definition header_of :: "pydict list \<Rightarrow> string list" where
  "header_of rows = sorted_list_of_set (\<Union>row \<in> set rows. set (map fst row))"

definition project :: "string list \<Rightarrow> pydict \<Rightarrow> json list" where
  "project header row =
     map (\<lambda>f. case map_of row f of None \<Rightarrow> JStr [] | Some v \<Rightarrow> v) header"

subsection \<open>The reader of the \<^verbatim>\<open>csv\<close> module\<close>

text \<open>\<^verbatim>\<open>csv.reader\<close> with the default dialect, on a file opened with
  \<^verbatim>\<open>newline=''\<close>: the file is iterated line by line, a line ending after
  \<^verbatim>\<open>\n\<close>, \<^verbatim>\<open>\r\n\<close> or a lone \<^verbatim>\<open>\r\<close>, and keeping its ending; the reader is a
  state machine that is given the characters of a line and then an end-of-line mark, and
  hands out a record each time this leaves it at the start of a record. A field may hold
  \<^verbatim>\<open>csv.field_size_limit()\<close> characters, 131072 unless the program changes it, which
  this one does not; a character more raises \<^verbatim>\<open>csv.Error\<close>.\<close>

definition is_newline :: "char \<Rightarrow> bool" where
  "is_newline c = (c = CHR 0x0A \<or> c = CHR 0x0D)"

text \<open>The lines of a text; \<^verbatim>\<open>cur\<close> is the part of the current line already seen.\<close>

fun lines_from :: "string \<Rightarrow> string \<Rightarrow> string list" where
  "lines_from cur [] = (if cur = [] then [] else [cur])"
| "lines_from cur [c] = [cur @ [c]]"
| "lines_from cur (c # d # ds) =
     (if c = CHR 0x0A then (cur @ [c]) # lines_from [] (d # ds)
      else if c = CHR 0x0D then
        (if d = CHR 0x0A then (cur @ [c, d]) # lines_from [] ds
         else (cur @ [c]) # lines_from [] (d # ds))
      else lines_from (cur @ [c]) (d # ds))"

definition readlines :: "string \<Rightarrow> string list" where
  "readlines s = lines_from [] s"

datatype parser_state =
  START_RECORD | START_FIELD | IN_FIELD | IN_QUOTED_FIELD | QUOTE_IN_QUOTED_FIELD | EAT_CRNL

record reader =
  state :: parser_state
  field_buf :: string
  fields_read :: "string list"

definition parse_reset :: reader where
  "parse_reset = \<lparr>state = START_RECORD, field_buf = [], fields_read = []\<rparr>"

definition parse_save_field :: "reader \<Rightarrow> reader" where
  "parse_save_field r = r\<lparr>fields_read := fields_read r @ [field_buf r], field_buf := []\<rparr>"

definition field_limit :: int where
  "field_limit = 131072"

definition parse_add_char :: "reader \<Rightarrow> char \<Rightarrow> error + reader" where
  "parse_add_char r c =
     (if field_limit \<le> int (length (field_buf r)) then Inl CsvError
      else Inr (r\<lparr>field_buf := field_buf r @ [c]\<rparr>))"

text \<open>The case \<^verbatim>\<open>START_FIELD\<close> of \<^verbatim>\<open>parse_process_char\<close>, which the case
  \<^verbatim>\<open>START_RECORD\<close> falls through to; \<^verbatim>\<open>None\<close> is the end-of-line mark.\<close>

definition start_field :: "reader \<Rightarrow> char option \<Rightarrow> error + reader" where
  "start_field r c =
     (case c of
        None \<Rightarrow> Inr ((parse_save_field r)\<lparr>state := START_RECORD\<rparr>)
      | Some ch \<Rightarrow>
          if is_newline ch then Inr ((parse_save_field r)\<lparr>state := EAT_CRNL\<rparr>)
          else if ch = CHR 0x22 then Inr (r\<lparr>state := IN_QUOTED_FIELD\<rparr>)
          else if ch = CHR '','' then Inr (parse_save_field r)
          else bind_err (parse_add_char r ch) (\<lambda>r. Inr (r\<lparr>state := IN_FIELD\<rparr>)))"

definition parse_process_char :: "reader \<Rightarrow> char option \<Rightarrow> error + reader" where
  "parse_process_char r c =
     (case state r of
        START_RECORD \<Rightarrow>
          (case c of
             None \<Rightarrow> Inr r
           | Some ch \<Rightarrow>
               if is_newline ch then Inr (r\<lparr>state := EAT_CRNL\<rparr>)
               else start_field (r\<lparr>state := START_FIELD\<rparr>) c)
      | START_FIELD \<Rightarrow> start_field r c
      | IN_FIELD \<Rightarrow>
          (case c of
             None \<Rightarrow> Inr ((parse_save_field r)\<lparr>state := START_RECORD\<rparr>)
           | Some ch \<Rightarrow>
               if is_newline ch then Inr ((parse_save_field r)\<lparr>state := EAT_CRNL\<rparr>)
               else if ch = CHR '','' then Inr ((parse_save_field r)\<lparr>state := START_FIELD\<rparr>)
               else parse_add_char r ch)
      | IN_QUOTED_FIELD \<Rightarrow>
          (case c of
             None \<Rightarrow> Inr r
           | Some ch \<Rightarrow>
               if ch = CHR 0x22 then Inr (r\<lparr>state := QUOTE_IN_QUOTED_FIELD\<rparr>)
               else parse_add_char r ch)
      | QUOTE_IN_QUOTED_FIELD \<Rightarrow>
          (case c of
             None \<Rightarrow> Inr ((parse_save_field r)\<lparr>state := START_RECORD\<rparr>)
           | Some ch \<Rightarrow>
               if ch = CHR 0x22
               then bind_err (parse_add_char r ch) (\<lambda>r. Inr (r\<lparr>state := IN_QUOTED_FIELD\<rparr>))
               else if ch = CHR '','' then Inr ((parse_save_field r)\<lparr>state := START_FIELD\<rparr>)
               else if is_newline ch then Inr ((parse_save_field r)\<lparr>state := EAT_CRNL\<rparr>)
               else bind_err (parse_add_char r ch) (\<lambda>r. Inr (r\<lparr>state := IN_FIELD\<rparr>)))
      | EAT_CRNL \<Rightarrow>
          (case c of
             None \<Rightarrow> Inr (r\<lparr>state := START_RECORD\<rparr>)
           | Some ch \<Rightarrow> if is_newline ch then Inr r else Inl CsvError))"

text \<open>The characters of a line, one after the other.\<close>

fun feed :: "reader \<Rightarrow> string \<Rightarrow> error + reader" where
  "feed r [] = Inr r"
| "feed r (c # cs) = bind_err (parse_process_char r (Some c)) (\<lambda>r. feed r cs)"

text \<open>The end of a line: the mark is processed, and a reader left at the start of a record
  hands its fields out and is reset.\<close>

definition line_end ::
  "reader \<Rightarrow> string list list \<Rightarrow> error + (reader \<times> string list list)" where
  "line_end r records =
     bind_err (parse_process_char r None) (\<lambda>r.
       if state r = START_RECORD then Inr (parse_reset, records @ [fields_read r])
       else Inr (r, records))"

text \<open>The end of the input: a field or a quoted field under way is saved and the record
  handed out; otherwise the iteration stops.\<close>

definition at_end :: "reader \<Rightarrow> string list list \<Rightarrow> error + string list list" where
  "at_end r records =
     (if field_buf r \<noteq> [] \<or> state r = IN_QUOTED_FIELD
      then Inr (records @ [fields_read (parse_save_field r)])
      else Inr records)"

fun reader_loop :: "reader \<Rightarrow> string list \<Rightarrow> string list list \<Rightarrow> error + string list list" where
  "reader_loop r [] records = at_end r records"
| "reader_loop r (line # lines) records =
     bind_err (feed r line) (\<lambda>r.
       bind_err (line_end r records) (\<lambda>(r, records).
         reader_loop r lines records))"

text \<open>\<^verbatim>\<open>list(csv.reader(f))\<close> for a file with the given text.\<close>

definition csv_reader :: "string \<Rightarrow> error + string list list" where
  "csv_reader s = reader_loop parse_reset (readlines s) []"

text \<open>A field that the reader takes: one of at most \<^verbatim>\<open>field_limit\<close> characters.\<close>

definition within_limit :: "string \<Rightarrow> bool" where
  "within_limit s = (int (length s) \<le> field_limit)"

text \<open>The same reader in one pass over the text, the lines being cut on the way;
  \<^verbatim>\<open>mid\<close> tells that the current line has a character already. This form is used in
  the proofs only.\<close>

fun one_pass ::
  "bool \<Rightarrow> reader \<Rightarrow> string \<Rightarrow> string list list \<Rightarrow> error + string list list" where
  "one_pass mid r [] records =
     (if mid then bind_err (line_end r records) (\<lambda>(r, records). at_end r records)
      else at_end r records)"
| "one_pass mid r [c] records =
     bind_err (parse_process_char r (Some c)) (\<lambda>r.
       bind_err (line_end r records) (\<lambda>(r, records). at_end r records))"
| "one_pass mid r (c # d # ds) records =
     bind_err (parse_process_char r (Some c)) (\<lambda>r.
       if c = CHR 0x0A then
         bind_err (line_end r records) (\<lambda>(r, records). one_pass False r (d # ds) records)
       else if c = CHR 0x0D then
         (if d = CHR 0x0A then
            bind_err (parse_process_char r (Some d)) (\<lambda>r.
              bind_err (line_end r records) (\<lambda>(r, records). one_pass False r ds records))
          else bind_err (line_end r records) (\<lambda>(r, records). one_pass False r (d # ds) records))
       else one_pass True r (d # ds) records)"

text \<open>What the specification expects to read back from a row: under every field of the
  header the text of the value, and the empty string for a field the row does not have.\<close>

definition cells_of :: "(json \<Rightarrow> string) \<Rightarrow> string list \<Rightarrow> pydict \<Rightarrow> string list" where
  "cells_of as_text header row =
     map (\<lambda>f. case map_of row f of None \<Rightarrow> [] | Some v \<Rightarrow> as_text v) header"

text \<open>The table of an export: the header, then the cells of every row as the writer writes
  them.\<close>

definition table_of :: "pydict list \<Rightarrow> string list list" where
  "table_of rows = header_of rows # map (cells_of csv_cell (header_of rows)) rows"

text \<open>What is read back from the file that \<^verbatim>\<open>export_to_csv\<close> writes for a list of
  records.\<close>

definition read_back :: "pydict list \<Rightarrow> error + string list list" where
  "read_back nfts =
     (case export_to_csv nfts (Some ''out.csv'') [] \<lparr>files = Map.empty, warnings = []\<rparr> of
        Inl e \<Rightarrow> Inl e
      | Inr (None, w) \<Rightarrow> Inr []
      | Inr (Some path, w) \<Rightarrow>
          (case files w path of None \<Rightarrow> Inr [] | Some s \<Rightarrow> csv_reader s))"

text \<open>The cell under the field \<^verbatim>\<open>f\<close> in the \<^verbatim>\<open>i\<close>-th row read back after the
  header.\<close>

definition read_cell :: "pydict list \<Rightarrow> nat \<Rightarrow> string \<Rightarrow> string option" where
  "read_cell nfts i f =
     (case read_back nfts of
        Inr (header # rows) \<Rightarrow>
          if i < length rows then map_of (zip header (rows ! i)) f else None
      | _ \<Rightarrow> None)"

section \<open>Properties of the sanitization\<close>

lemma re_sub_nonword_filter:
  "re_sub_nonword s = filter kept_char s"
  by (induction s) (auto simp: in_negated_class_def is_word_def kept_char_def)

lemma replace_char:
  "replace [a] [b] s = map (\<lambda>c. if c = a then b else c) s"
  by (induction s) auto

lemma sanitize_map: "sanitize s = sanitize_each_space s"
  unfolding sanitize_def sanitize_each_space_def re_sub_nonword_filter replace_char
  by (simp add: space_to_underscore_def [abs_def])

lemma is_space_space: "is_space CHR '' ''"
  by (simp add: is_space_def)

lemma not_space_underscore: "\<not> is_space CHR ''_''"
  by (simp add: is_space_def)

lemma rstrip_decomp: "l = rstrip l @ rev (takeWhile is_space (rev l))"
proof -
  have "rev l = takeWhile is_space (rev l) @ dropWhile is_space (rev l)"
    by simp
  then have "rev (rev l) = rev (takeWhile is_space (rev l) @ dropWhile is_space (rev l))"
    by (rule arg_cong)
  then show ?thesis
    by (simp only: rev_rev_ident rev_append rstrip_def)
qed

lemma hd_rstrip: "rstrip l \<noteq> [] \<Longrightarrow> hd (rstrip l) = hd l"
  using rstrip_decomp [of l] by (metis hd_append2)

lemma last_rstrip: "rstrip l \<noteq> [] \<Longrightarrow> \<not> is_space (last (rstrip l))"
proof -
  assume "rstrip l \<noteq> []"
  then have ne: "dropWhile is_space (rev l) \<noteq> []"
    by (simp only: rstrip_def rev_is_Nil_conv not_False_eq_True)
  have "last (rstrip l) = hd (dropWhile is_space (rev l))"
    using ne by (simp only: rstrip_def last_rev)
  then show ?thesis using hd_dropWhile [OF ne] by simp
qed

lemma rstrip_Nil: "rstrip [] = []"
  by (simp add: rstrip_def)

lemma hd_lstrip: "lstrip s \<noteq> [] \<Longrightarrow> \<not> is_space (hd (lstrip s))"
  unfolding lstrip_def by (rule hd_dropWhile)

lemma strip_ends:
  "strip s = [] \<or> (\<not> is_space (hd (strip s)) \<and> \<not> is_space (last (strip s)))"
proof (cases "strip s = []")
  case True
  then show ?thesis by simp
next
  case False
  then have r: "rstrip (lstrip s) \<noteq> []" unfolding strip_def .
  then have "lstrip s \<noteq> []" using rstrip_Nil by metis
  then have "\<not> is_space (hd (lstrip s))" by (rule hd_lstrip)
  then have "\<not> is_space (hd (strip s))"
    using hd_rstrip [OF r] by (simp add: strip_def)
  moreover have "\<not> is_space (last (strip s))"
    using last_rstrip [OF r] by (simp add: strip_def)
  ultimately show ?thesis by simp
qed

lemma strip_id:
  assumes "u = [] \<or> (\<not> is_space (hd u) \<and> \<not> is_space (last u))"
  shows "strip u = u"
proof (cases u)
  case Nil
  then show ?thesis by (simp add: strip_def rstrip_def lstrip_def)
next
  case (Cons a as)
  with assms have h: "\<not> is_space a" and l: "\<not> is_space (last (a # as))" by auto
  have 1: "dropWhile is_space (a # as) = a # as"
    using h by simp
  obtain b bs where rv: "rev (a # as) = b # bs"
    by (cases "rev (a # as)") auto
  then have "last (a # as) = b"
    by (metis last_rev list.sel(1) rev_rev_ident)
  then have 2: "dropWhile is_space (rev (a # as)) = rev (a # as)"
    using l rv by simp
  show ?thesis
    unfolding Cons strip_def rstrip_def lstrip_def 1 2 by simp
qed

lemma set_strip: "set (strip s) \<subseteq> set s"
proof
  fix x
  assume "x \<in> set (strip s)"
  then have "x \<in> set (dropWhile is_space (rev (dropWhile is_space s)))"
    by (simp add: strip_def rstrip_def lstrip_def)
  then have "x \<in> set (rev (dropWhile is_space s))"
    by (rule set_dropWhileD)
  then have "x \<in> set (dropWhile is_space s)"
    by simp
  then show "x \<in> set s"
    by (rule set_dropWhileD)
qed


lemma kept_space_to_underscore: "kept_char c \<Longrightarrow> kept_char (space_to_underscore c)"
  by (simp add: kept_char_def space_to_underscore_def)

lemma space_to_underscore_idem: "space_to_underscore (space_to_underscore c) = space_to_underscore c"
  by (simp add: space_to_underscore_def)

lemma space_to_underscore_not_space:
  "\<not> is_space c \<Longrightarrow> \<not> is_space (space_to_underscore c)"
  by (simp add: space_to_underscore_def not_space_underscore)

lemma sanitize_each_space_ends:
  "sanitize_each_space s = [] \<or>
   (\<not> is_space (hd (sanitize_each_space s)) \<and> \<not> is_space (last (sanitize_each_space s)))"
proof (cases "strip (filter kept_char s) = []")
  case True
  then show ?thesis by (simp add: sanitize_each_space_def)
next
  case False
  with strip_ends [of "filter kept_char s"]
  have "\<not> is_space (hd (strip (filter kept_char s)))"
    and "\<not> is_space (last (strip (filter kept_char s)))" by auto
  with False show ?thesis
    by (simp add: sanitize_each_space_def hd_map last_map space_to_underscore_not_space)
qed

lemma sanitize_each_space_kept: "c \<in> set (sanitize_each_space s) \<Longrightarrow> kept_char c"
proof -
  assume "c \<in> set (sanitize_each_space s)"
  then obtain d where d: "d \<in> set (strip (filter kept_char s))" and c: "c = space_to_underscore d"
    by (auto simp: sanitize_each_space_def)
  from d have "d \<in> set (filter kept_char s)"
    using set_strip by blast
  then have "kept_char d" by simp
  then show ?thesis unfolding c by (rule kept_space_to_underscore)
qed

lemma sanitize_idem: "sanitize (sanitize s) = sanitize s"
proof -
  let ?u = "sanitize_each_space s"
  have f: "filter kept_char ?u = ?u"
    using sanitize_each_space_kept by (simp only: filter_id_conv) blast
  have m: "map space_to_underscore ?u = ?u"
    by (simp add: sanitize_each_space_def space_to_underscore_idem)
  have "sanitize_each_space ?u = map space_to_underscore (strip (filter kept_char ?u))"
    by (simp only: sanitize_each_space_def)
  also have "\<dots> = ?u"
    by (simp only: f strip_id [OF sanitize_each_space_ends] m)
  finally show ?thesis by (simp only: sanitize_map)
qed

text \<open>
  C3, as stated: the sanitization equals the reference function that replaces each run of
  whitespace by a single underscore. It does not: two consecutive spaces give two
  underscores.
\<close>

theorem sanitize_two_spaces_counterexample:
  "sanitize ''a  b'' = ''a__b'' \<and> sanitize_spec ''a  b'' = ''a_b''"
  by (simp add: sanitize_def sanitize_spec_def strip_def lstrip_def rstrip_def
      in_negated_class_def is_word_def kept_char_def is_alnum_def is_space_def)

text \<open>
  C3, amended: for every string, the sanitization equals the function that removes every
  character that is not alphanumeric, underscore, whitespace or hyphen, trims surrounding
  whitespace, and then replaces every space character by an underscore, one for one; any
  other whitespace character inside the string is kept.
\<close>

theorem sanitize_replaces_each_space: "sanitize s = sanitize_each_space s"
  by (rule sanitize_map)

text \<open>
  C9: the sanitization is idempotent.
\<close>

theorem sanitize_idempotent: "sanitize (sanitize s) = sanitize s"
  by (rule sanitize_idem)

section \<open>Properties of the year filter\<close>

lemma year_arith:
  fixes a b c d :: nat
  assumes "a \<le> 9" "b \<le> 9" "c \<le> 9" "d \<le> 9"
  shows "(1990 \<le> 1000 * a + 100 * b + 10 * c + d \<and> 1000 * a + 100 * b + 10 * c + d \<le> 2025) =
    ((a = 1 \<and> b = 9 \<and> c = 9) \<or> (a = 2 \<and> b = 0 \<and> (c = 0 \<or> c = 1)) \<or>
     (a = 2 \<and> b = 0 \<and> c = 2 \<and> d \<le> 5))"
proof -
  consider "a = 0" | "a = 1" | "a = 2" | "3 \<le> a" by linarith
  then show ?thesis
  proof cases
    case 1 then show ?thesis using assms by linarith
  next
    case 2
    consider "b \<le> 8" | "b = 9" using assms by linarith
    then show ?thesis
    proof cases
      case 1 then show ?thesis using \<open>a = 1\<close> assms by linarith
    next
      case 2 
      consider "c \<le> 8" | "c = 9" using assms by linarith
      then show ?thesis using \<open>a = 1\<close> \<open>b = 9\<close> assms by cases linarith+
    qed
  next
    case 3
    consider "b = 0" | "1 \<le> b" by linarith
    then show ?thesis
    proof cases
      case 1
      consider "c = 0" | "c = 1" | "c = 2" | "3 \<le> c" by linarith
      then show ?thesis using \<open>a = 2\<close> \<open>b = 0\<close> assms by cases linarith+
    next
      case 2 then show ?thesis using \<open>a = 2\<close> assms by linarith
    qed
  next
    case 4 then show ?thesis using assms by linarith
  qed
qed

lemma char_nat_eq: "(c = d) = ((of_char c :: nat) = of_char d)"
  by (simp add: of_char_eq_iff)

lemma year_pattern_codes:
  "list_ex (\<lambda>alt. seq_matches alt (a # b # c # d # rest)) year_pattern =
    (((of_char a :: nat) = 49 \<and> (of_char b :: nat) = 57 \<and> (of_char c :: nat) = 57 \<and>
        48 \<le> (of_char d :: nat) \<and> (of_char d :: nat) \<le> 57) \<or>
     ((of_char a :: nat) = 50 \<and> (of_char b :: nat) = 48 \<and>
        ((of_char c :: nat) = 48 \<or> (of_char c :: nat) = 49) \<and>
        48 \<le> (of_char d :: nat) \<and> (of_char d :: nat) \<le> 57) \<or>
     ((of_char a :: nat) = 50 \<and> (of_char b :: nat) = 48 \<and> (of_char c :: nat) = 50 \<and>
        48 \<le> (of_char d :: nat) \<and> (of_char d :: nat) \<le> 53))"
  unfolding year_pattern_def
  by (simp add: char_nat_eq [of a] char_nat_eq [of b] char_nat_eq [of c])

lemma digit_code: "is_digit c \<Longrightarrow> (of_char c :: nat) = 48 + digit_value c \<and> digit_value c \<le> 9"
  unfolding is_digit_def digit_value_def by linarith

lemma year_alt_iff:
  "list_ex (\<lambda>alt. seq_matches alt (a # b # c # d # rest)) year_pattern =
   (is_digit a \<and> is_digit b \<and> is_digit c \<and> is_digit d \<and>
    1990 \<le> 1000 * digit_value a + 100 * digit_value b + 10 * digit_value c + digit_value d \<and>
    1000 * digit_value a + 100 * digit_value b + 10 * digit_value c + digit_value d \<le> 2025)"
proof (cases "is_digit a \<and> is_digit b \<and> is_digit c \<and> is_digit d")
  case True
  then have A: "(of_char a :: nat) = 48 + digit_value a" "digit_value a \<le> 9"
    and B: "(of_char b :: nat) = 48 + digit_value b" "digit_value b \<le> 9"
    and C: "(of_char c :: nat) = 48 + digit_value c" "digit_value c \<le> 9"
    and D: "(of_char d :: nat) = 48 + digit_value d" "digit_value d \<le> 9"
    using digit_code by blast+
  show ?thesis
    unfolding year_pattern_codes A(1) B(1) C(1) D(1)
    using True year_arith [OF A(2) B(2) C(2) D(2)] D(2) by simp
next
  case False
  then have "\<not> list_ex (\<lambda>alt. seq_matches alt (a # b # c # d # rest)) year_pattern"
    unfolding year_pattern_codes is_digit_def by linarith
  then show ?thesis using False by blast
qed

lemma short_or_four:
  obtains "s = []" | a where "s = [a]" | a b where "s = [a, b]" | a b c where "s = [a, b, c]"
    | a b c d rest where "s = a # b # c # d # rest"
proof (cases s)
  case Nil then show ?thesis using that by simp
next
  case s1: (Cons a s1)
  show ?thesis
  proof (cases s1)
    case Nil then show ?thesis using that s1 by simp
  next
    case s2: (Cons b s2)
    show ?thesis
    proof (cases s2)
      case Nil then show ?thesis using that s1 s2 by simp
    next
      case s3: (Cons c s3)
      show ?thesis
      proof (cases s3)
        case Nil then show ?thesis using that s1 s2 s3 by simp
      next
        case (Cons d rest) then show ?thesis using that s1 s2 s3 by simp
      qed
    qed
  qed
qed

lemma year_pattern_match_iff: "year_pattern_match s = starts_with_year s"
proof (cases s rule: short_or_four)
  case 1
  then show ?thesis
    by (simp add: year_pattern_match_def starts_with_year_def year_of_prefix_def year_pattern_def)
next
  case 2
  then show ?thesis
    by (simp add: year_pattern_match_def starts_with_year_def year_of_prefix_def year_pattern_def)
next
  case 3
  then show ?thesis
    by (simp add: year_pattern_match_def starts_with_year_def year_of_prefix_def year_pattern_def)
next
  case 4
  then show ?thesis
    by (simp add: year_pattern_match_def starts_with_year_def year_of_prefix_def year_pattern_def)
next
  case 5
  show ?thesis
    unfolding 5 year_pattern_match_def year_alt_iff
    by (auto simp: starts_with_year_def year_of_prefix_def)
qed

lemma filter_loop_Inr:
  "filter_loop name_of nfts filtered = Inr out \<Longrightarrow>
   \<exists>kept. out = filtered @ kept \<and> subseq kept nfts \<and>
     (\<forall>n \<in> set kept. \<exists>v. name_of n = Inr v \<and> truthy v \<and> year_pattern_match (py_str v))"
proof (induction nfts arbitrary: filtered)
  case Nil
  then show ?case by simp
next
  case (Cons nft nfts)
  from Cons.prems obtain v where v: "name_of nft = Inr v"
    by (cases "name_of nft") auto
  show ?case
  proof (cases "truthy v \<and> year_pattern_match (py_str v)")
    case True
    with Cons.prems v have "filter_loop name_of nfts (filtered @ [nft]) = Inr out" by simp
    from Cons.IH [OF this] obtain kept where k: "out = (filtered @ [nft]) @ kept"
      "subseq kept nfts"
      "\<forall>n \<in> set kept. \<exists>v. name_of n = Inr v \<and> truthy v \<and> year_pattern_match (py_str v)"
      by blast
    have "out = filtered @ (nft # kept)" using k(1) by simp
    moreover have "subseq (nft # kept) (nft # nfts)" using k(2) by simp
    moreover have "\<forall>n \<in> set (nft # kept). \<exists>v. name_of n = Inr v \<and> truthy v \<and> year_pattern_match (py_str v)"
      using k(3) v True by auto
    ultimately show ?thesis by blast
  next
    case False
    with Cons.prems v have "filter_loop name_of nfts filtered = Inr out" by auto
    from Cons.IH [OF this] obtain kept where k: "out = filtered @ kept"
      "subseq kept nfts"
      "\<forall>n \<in> set kept. \<exists>v. name_of n = Inr v \<and> truthy v \<and> year_pattern_match (py_str v)"
      by blast
    have "subseq kept (nft # nfts)" using k(2) by (rule list_emb_Cons)
    then show ?thesis using k by blast
  qed
qed

lemma filter_loop_total:
  "\<forall>n \<in> set nfts. \<exists>v. name_of n = Inr v \<Longrightarrow> \<exists>out. filter_loop name_of nfts filtered = Inr out"
proof (induction nfts arbitrary: filtered)
  case Nil
  then show ?case by simp
next
  case (Cons nft nfts)
  then obtain v where v: "name_of nft = Inr v" by auto
  from Cons have "\<And>f. \<exists>out. filter_loop name_of nfts f = Inr out" by simp
  then show ?case using v by simp
qed

lemma name_shape_ok_cases:
  assumes "name_shape_ok nft"
  obtains "map_of nft ''content'' = None"
  | c where "map_of nft ''content'' = Some (JDict c)" "map_of c ''metadata'' = None"
  | c m where "map_of nft ''content'' = Some (JDict c)" "map_of c ''metadata'' = Some (JDict m)"
proof (cases "map_of nft ''content''")
  case None
  then show ?thesis using that(1) by simp
next
  case content: (Some v)
  show ?thesis
  proof (cases "\<exists>c. v = JDict c")
    case False
    then have "\<not> name_shape_ok nft"
      using content by (cases v) (simp_all add: name_shape_ok_def)
    with assms show ?thesis by simp
  next
    case True
    then obtain c where c: "v = JDict c" by blast
    show ?thesis
    proof (cases "map_of c ''metadata''")
      case None
      then show ?thesis using that(2) content c by simp
    next
      case metadata: (Some w)
      show ?thesis
      proof (cases "\<exists>m. w = JDict m")
        case False
        then have "\<not> name_shape_ok nft"
          using content c metadata by (cases w) (simp_all add: name_shape_ok_def)
        with assms show ?thesis by simp
      next
        case True
        then obtain m where "w = JDict m" by blast
        then show ?thesis using that(3) content c metadata by simp
      qed
    qed
  qed
qed

lemma in_keys_iff: "(k \<in> fst ` set d) = (map_of d k \<noteq> None)"
  by (simp add: map_of_eq_None_iff)

lemma name_main_resolved:
  assumes "name_shape_ok nft"
  shows "\<exists>v. name_main nft = Inr v \<and>
    (if truthy v then first_nonempty (candidates_main nft) = Some v
     else first_nonempty (candidates_main nft) = None)"
  using assms
proof (cases rule: name_shape_ok_cases)
  case 1
  then show ?thesis
    by (cases "map_of nft ''name''")
       (auto simp: name_main_def candidates_main_def subfield_def dict_get_def)
next
  case (2 c)
  then show ?thesis
    by (cases "map_of nft ''name''"; cases "map_of c ''name''")
       (auto simp: name_main_def candidates_main_def subfield_def dict_get_def)
next
  case (3 c m)
  then show ?thesis
    by (cases "map_of nft ''name''"; cases "map_of c ''name''"; cases "map_of m ''name''")
       (auto simp: name_main_def candidates_main_def subfield_def dict_get_def)
qed

lemma name_in_metadata_shape:
  assumes "name_shape_ok nft"
  shows "name_in_metadata nft =
    Inr (case subfield (map_of nft ''content'') ''metadata'' of
           Some (JDict m) \<Rightarrow>
             (if truthy (dict_get m ''name'' JNull) then dict_get m ''name'' JNull
              else dict_get m ''title'' (JStr []))
         | _ \<Rightarrow> JStr [])"
  using assms
proof (cases rule: name_shape_ok_cases)
  case 1
  then show ?thesis
    by (simp add: name_in_metadata_def in_keys_iff subfield_def)
next
  case (2 c)
  then show ?thesis
    by (simp add: name_in_metadata_def in_keys_iff subfield_def)
next
  case (3 c m)
  then show ?thesis
    by (simp add: name_in_metadata_def in_keys_iff subfield_def)
qed

lemma first_nonempty_skip:
  "\<not> truthy (dict_get d k dflt) \<Longrightarrow> first_nonempty (map_of d k # cs) = first_nonempty cs"
  by (cases "map_of d k") (simp_all add: dict_get_def)

lemma first_nonempty_hit:
  "truthy (dict_get d k dflt) \<Longrightarrow> \<not> truthy dflt \<Longrightarrow>
   first_nonempty (map_of d k # cs) = Some (dict_get d k dflt)"
  by (cases "map_of d k") (simp_all add: dict_get_def)

lemma first_nonempty_last:
  "\<not> truthy dflt \<Longrightarrow>
   (if truthy (dict_get d k dflt) then first_nonempty [map_of d k] = Some (dict_get d k dflt)
    else first_nonempty [map_of d k] = None)"
  by (cases "map_of d k") (simp_all add: dict_get_def)

lemma name_rest_resolved:
  assumes "name_shape_ok nft"
  shows "\<exists>v. name_rest nft = Inr v \<and>
    (if truthy v then first_nonempty (candidates_rest nft) = Some v
     else first_nonempty (candidates_rest nft) = None)"
  using assms
proof (cases rule: name_shape_ok_cases)
  case 1
  have r: "name_rest nft = Inr (dict_get nft ''name'' (JStr []))"
    unfolding name_rest_def name_in_metadata_shape [OF assms]
    using 1 by (simp add: subfield_def in_keys_iff)
  have c: "candidates_rest nft = [None, None, None, map_of nft ''name'']"
    using 1 by (simp add: candidates_rest_def subfield_def)
  show ?thesis
    unfolding r c using first_nonempty_last [of "JStr []" nft "''name''"] by simp
next
  case (2 c)
  have key: "''content'' \<in> fst ` set nft"
    using 2 by (simp add: in_keys_iff)
  have cands: "candidates_rest nft = [None, None, map_of c ''name'', map_of nft ''name'']"
    using 2 by (simp add: candidates_rest_def subfield_def)
  let ?cn = "dict_get c ''name'' (JStr [])"
  show ?thesis
  proof (cases "truthy ?cn")
    case True
    then have "name_rest nft = Inr ?cn"
      unfolding name_rest_def name_in_metadata_shape [OF assms]
      using 2 key by (simp add: subfield_def)
    moreover have "first_nonempty (candidates_rest nft) = Some ?cn"
      unfolding cands using first_nonempty_hit [OF True] by simp
    ultimately show ?thesis using True by simp
  next
    case False
    then have r: "name_rest nft = Inr (dict_get nft ''name'' (JStr []))"
      unfolding name_rest_def name_in_metadata_shape [OF assms]
      using 2 key by (simp add: subfield_def)
    have fc: "first_nonempty (candidates_rest nft) = first_nonempty [map_of nft ''name'']"
      unfolding cands using first_nonempty_skip [OF False] by simp
    show ?thesis
      unfolding r fc using first_nonempty_last [of "JStr []" nft "''name''"] by simp
  qed
next
  case (3 c m)
  let ?n = "dict_get m ''name'' JNull"
  let ?t = "dict_get m ''title'' (JStr [])"
  have im: "name_in_metadata nft = Inr (if truthy ?n then ?n else ?t)"
    unfolding name_in_metadata_shape [OF assms] using 3 by (simp add: subfield_def)
  have cands: "candidates_rest nft =
      [map_of m ''name'', map_of m ''title'', map_of c ''name'', map_of nft ''name'']"
    using 3 by (simp add: candidates_rest_def subfield_def)
  have key: "''content'' \<in> fst ` set nft"
    using 3 by (simp add: in_keys_iff)
  show ?thesis
  proof (cases "truthy ?n")
    case True
    then have "name_rest nft = Inr ?n"
      unfolding name_rest_def im by simp
    moreover have "first_nonempty (candidates_rest nft) = Some ?n"
      unfolding cands using first_nonempty_hit [OF True] by simp
    ultimately show ?thesis using True by simp
  next
    case n: False
    have fn: "first_nonempty (candidates_rest nft) =
        first_nonempty [map_of m ''title'', map_of c ''name'', map_of nft ''name'']"
      unfolding cands using first_nonempty_skip [OF n] by simp
    show ?thesis
    proof (cases "truthy ?t")
      case True
      then have "name_rest nft = Inr ?t"
        unfolding name_rest_def im using n by simp
      moreover have "first_nonempty (candidates_rest nft) = Some ?t"
        unfolding fn using first_nonempty_hit [OF True] by simp
      ultimately show ?thesis using True by simp
    next
      case t: False
      have ft: "first_nonempty (candidates_rest nft) =
          first_nonempty [map_of c ''name'', map_of nft ''name'']"
        unfolding fn using first_nonempty_skip [OF t] by simp
      let ?cn = "dict_get c ''name'' (JStr [])"
      show ?thesis
      proof (cases "truthy ?cn")
        case True
        then have "name_rest nft = Inr ?cn"
          unfolding name_rest_def im using n t key 3 by simp
        moreover have "first_nonempty (candidates_rest nft) = Some ?cn"
          unfolding ft using first_nonempty_hit [OF True] by simp
        ultimately show ?thesis using True by simp
      next
        case cn: False
        then have r: "name_rest nft = Inr (dict_get nft ''name'' (JStr []))"
          unfolding name_rest_def im using n t key 3 by simp
        have fc: "first_nonempty (candidates_rest nft) = first_nonempty [map_of nft ''name'']"
          unfolding ft using first_nonempty_skip [OF cn] by simp
        show ?thesis
          unfolding r fc using first_nonempty_last [of "JStr []" nft "''name''"] by simp
      qed
    qed
  qed
qed

lemma filter_loop_filter:
  "\<forall>n \<in> set nfts. \<exists>v. name_of n = Inr v \<Longrightarrow>
   filter_loop name_of nfts filtered = Inr (filtered @ filter (has_year_name name_of) nfts)"
proof (induction nfts arbitrary: filtered)
  case Nil
  then show ?case by simp
next
  case (Cons nft nfts)
  then obtain v where v: "name_of nft = Inr v" by auto
  from Cons.prems have rest: "\<forall>n \<in> set nfts. \<exists>v. name_of n = Inr v" by simp
  show ?case
    using v Cons.IH [OF rest]
    by (simp add: has_year_name_def year_pattern_match_iff)
qed

lemma filter_loop_has_year_name:
  assumes "filter_loop name_of nfts [] = Inr out"
  shows "subseq out nfts \<and> (\<forall>n \<in> set out. has_year_name name_of n)"
proof -
  from filter_loop_Inr [OF assms] obtain kept where k: "out = [] @ kept" "subseq kept nfts"
    "\<forall>n \<in> set kept. \<exists>v. name_of n = Inr v \<and> truthy v \<and> year_pattern_match (py_str v)"
    by blast
  have "\<forall>n \<in> set kept. has_year_name name_of n"
    using k(3) by (auto simp: has_year_name_def year_pattern_match_iff)
  then show ?thesis using k by simp
qed

lemma shape_ok_names:
  assumes "\<forall>n \<in> set nfts. name_shape_ok n"
  shows "\<forall>n \<in> set nfts. \<exists>v. name_main n = Inr v"
    and "\<forall>n \<in> set nfts. \<exists>v. name_rest n = Inr v"
  using assms name_main_resolved name_rest_resolved by blast+

lemma not_year_2026: "\<not> starts_with_year (''2026'' @ t)"
  by (simp add: starts_with_year_def year_of_prefix_def is_digit_def digit_value_def)

lemma year_1999wow: "starts_with_year ''1999wow''"
  by (simp add: starts_with_year_def year_of_prefix_def is_digit_def digit_value_def)

text \<open>
  C4: whenever \<^verbatim>\<open>filter_nfts_by_year\<close> returns, in either file, its result is a
  subsequence of the input, in the input's order, and the name of every retained record,
  as text, starts with four digits that write a year from 1990 to 2025. It returns on
  every list whose records have a dict, or nothing, as \<^verbatim>\<open>content\<close> and as
  \<^verbatim>\<open>content.metadata\<close>, and then it keeps exactly the records with such a name. A name
  starting with 2026 does not qualify; the name 1999wow does.
\<close>

theorem filter_nfts_by_year_subsequence:
  "(filter_nfts_by_year_main nfts = Inr out \<longrightarrow>
      subseq out nfts \<and> (\<forall>n \<in> set out. has_year_name name_main n)) \<and>
   (filter_nfts_by_year_rest nfts = Inr out \<longrightarrow>
      subseq out nfts \<and> (\<forall>n \<in> set out. has_year_name name_rest n)) \<and>
   ((\<forall>n \<in> set nfts. name_shape_ok n) \<longrightarrow>
      filter_nfts_by_year_main nfts = Inr (filter (has_year_name name_main) nfts) \<and>
      filter_nfts_by_year_rest nfts = Inr (filter (has_year_name name_rest) nfts)) \<and>
   \<not> starts_with_year (''2026'' @ t) \<and> starts_with_year ''1999wow''"
  unfolding filter_nfts_by_year_main_def filter_nfts_by_year_rest_def
  using filter_loop_has_year_name [of name_main nfts out]
    filter_loop_has_year_name [of name_rest nfts out]
    filter_loop_filter [OF shape_ok_names(1), of nfts "[]"]
    filter_loop_filter [OF shape_ok_names(2), of nfts "[]"]
    not_year_2026 year_1999wow
  by simp

theorem filter_nfts_by_year_subsequence_witness:
  "filter_nfts_by_year_main
     [[(''name'', JStr ''1999wow'')], [(''name'', JStr ''2026 party'')],
      [(''content'', JDict [(''metadata'', JDict [(''name'', JStr ''2025 Edge'')])])]] =
   Inr [[(''name'', JStr ''1999wow'')],
        [(''content'', JDict [(''metadata'', JDict [(''name'', JStr ''2025 Edge'')])])]] \<and>
   filter_nfts_by_year_rest
     [[(''name'', JStr ''1999wow'')], [(''name'', JStr ''2026 party'')],
      [(''content'', JDict [(''metadata'', JDict [(''name'', JStr ''2025 Edge'')])])]] =
   Inr [[(''name'', JStr ''1999wow'')],
        [(''content'', JDict [(''metadata'', JDict [(''name'', JStr ''2025 Edge'')])])]] \<and>
   subseq [[(''name'', JStr ''1999wow'')],
        [(''content'', JDict [(''metadata'', JDict [(''name'', JStr ''2025 Edge'')])])]]
     [[(''name'', JStr ''1999wow'')], [(''name'', JStr ''2026 party'')],
      [(''content'', JDict [(''metadata'', JDict [(''name'', JStr ''2025 Edge'')])])]] \<and>
   has_year_name name_main [(''name'', JStr ''1999wow'')] \<and>
   has_year_name name_rest
     [(''content'', JDict [(''metadata'', JDict [(''name'', JStr ''2025 Edge'')])])]"
proof -
  let ?nfts = "[[(''name'', JStr ''1999wow'')], [(''name'', JStr ''2026 party'')],
      [(''content'', JDict [(''metadata'', JDict [(''name'', JStr ''2025 Edge'')])])]]"
  let ?out = "[[(''name'', JStr ''1999wow'')],
        [(''content'', JDict [(''metadata'', JDict [(''name'', JStr ''2025 Edge'')])])]]"
  have m: "filter_nfts_by_year_main ?nfts = Inr ?out"
    by code_simp
  have r: "filter_nfts_by_year_rest ?nfts = Inr ?out"
    by code_simp
  note t = filter_nfts_by_year_subsequence [of ?nfts ?out "[]"]
  from t m have a: "subseq ?out ?nfts \<and> (\<forall>n \<in> set ?out. has_year_name name_main n)"
    by blast
  from t r have b: "\<forall>n \<in> set ?out. has_year_name name_rest n"
    by blast
  from a have a1: "has_year_name name_main [(''name'', JStr ''1999wow'')]"
    by simp
  from b have b1: "has_year_name name_rest
     [(''content'', JDict [(''metadata'', JDict [(''name'', JStr ''2025 Edge'')])])]"
    by simp
  from m r a a1 b1 show ?thesis by blast
qed

lemma filter_loop_drop:
  "name_of nft = Inr v \<Longrightarrow> \<not> truthy v \<Longrightarrow>
   filter_loop name_of (nft # nfts) filtered = filter_loop name_of nfts filtered"
  by simp

lemma name_main_dropped:
  assumes "name_shape_ok nft" and "first_nonempty (candidates_main nft) = None"
  shows "filter_loop name_main (nft # nfts) filtered = filter_loop name_main nfts filtered"
proof -
  from name_main_resolved [OF assms(1)] obtain v where v: "name_main nft = Inr v"
    "if truthy v then first_nonempty (candidates_main nft) = Some v
     else first_nonempty (candidates_main nft) = None"
    by blast
  have "\<not> truthy v"
  proof
    assume "truthy v"
    with v(2) assms(2) show False by simp
  qed
  with v(1) show ?thesis by (rule filter_loop_drop)
qed

lemma name_rest_dropped:
  assumes "name_shape_ok nft" and "first_nonempty (candidates_rest nft) = None"
  shows "filter_loop name_rest (nft # nfts) filtered = filter_loop name_rest nfts filtered"
proof -
  from name_rest_resolved [OF assms(1)] obtain v where v: "name_rest nft = Inr v"
    "if truthy v then first_nonempty (candidates_rest nft) = Some v
     else first_nonempty (candidates_rest nft) = None"
    by blast
  have "\<not> truthy v"
  proof
    assume "truthy v"
    with v(2) assms(2) show False by simp
  qed
  with v(1) show ?thesis by (rule filter_loop_drop)
qed

text \<open>
  The precedence of the names. For a record whose \<^verbatim>\<open>content\<close> and
  \<^verbatim>\<open>content.metadata\<close> are dicts where present, the name \<^verbatim>\<open>filter_nfts_by_year\<close> tests is the first non-empty candidate, in
  the order \<^verbatim>\<open>content.metadata.name\<close>, \<^verbatim>\<open>content.name\<close>, top-level \<^verbatim>\<open>name\<close> in
  \<^verbatim>\<open>main.py\<close>, and with \<^verbatim>\<open>content.metadata.title\<close> in second place in
  \<^verbatim>\<open>nft_extractor.py\<close>; when every candidate is empty or missing the name found is
  empty, and the loop goes on to the next record with the list of retained records
  unchanged, raising nothing.
\<close>

theorem name_resolution_precedence:
  assumes "name_shape_ok nft"
  shows
  "(\<exists>v. name_main nft = Inr v \<and>
      (if truthy v then first_nonempty (candidates_main nft) = Some v
       else first_nonempty (candidates_main nft) = None)) \<and>
   (\<exists>v. name_rest nft = Inr v \<and>
      (if truthy v then first_nonempty (candidates_rest nft) = Some v
       else first_nonempty (candidates_rest nft) = None)) \<and>
   (first_nonempty (candidates_main nft) = None \<longrightarrow>
      filter_loop name_main (nft # nfts) filtered = filter_loop name_main nfts filtered) \<and>
   (first_nonempty (candidates_rest nft) = None \<longrightarrow>
      filter_loop name_rest (nft # nfts) filtered = filter_loop name_rest nfts filtered)"
  using name_main_resolved [OF assms] name_rest_resolved [OF assms]
    name_main_dropped [OF assms] name_rest_dropped [OF assms]
  by blast

theorem name_resolution_precedence_witness:
  "name_shape_ok
     [(''content'', JDict [(''metadata'', JDict [(''name'', JStr []), (''title'', JStr ''1999 T'')]),
                           (''name'', JStr ''2001 C'')]),
      (''name'', JStr ''2002 N'')] \<and>
   name_main
     [(''content'', JDict [(''metadata'', JDict [(''name'', JStr []), (''title'', JStr ''1999 T'')]),
                           (''name'', JStr ''2001 C'')]),
      (''name'', JStr ''2002 N'')] = Inr (JStr ''2001 C'') \<and>
   name_rest
     [(''content'', JDict [(''metadata'', JDict [(''name'', JStr []), (''title'', JStr ''1999 T'')]),
                           (''name'', JStr ''2001 C'')]),
      (''name'', JStr ''2002 N'')] = Inr (JStr ''1999 T'') \<and>
   first_nonempty (candidates_main
     [(''content'', JDict [(''metadata'', JDict [(''name'', JStr []), (''title'', JStr ''1999 T'')]),
                           (''name'', JStr ''2001 C'')]),
      (''name'', JStr ''2002 N'')]) = Some (JStr ''2001 C'') \<and>
   first_nonempty (candidates_rest
     [(''content'', JDict [(''metadata'', JDict [(''name'', JStr []), (''title'', JStr ''1999 T'')]),
                           (''name'', JStr ''2001 C'')]),
      (''name'', JStr ''2002 N'')]) = Some (JStr ''1999 T'')"
proof -
  let ?nft = "[(''content'', JDict [(''metadata'', JDict [(''name'', JStr []), (''title'', JStr ''1999 T'')]),
                           (''name'', JStr ''2001 C'')]),
      (''name'', JStr ''2002 N'')]"
  have s: "name_shape_ok ?nft"
    by (simp add: name_shape_ok_def)
  have m: "name_main ?nft = Inr (JStr ''2001 C'')"
    by code_simp
  have r: "name_rest ?nft = Inr (JStr ''1999 T'')"
    by code_simp
  note t = name_resolution_precedence [OF s, of "[]" "[]"]
  from t m have a: "first_nonempty (candidates_main ?nft) = Some (JStr ''2001 C'')"
    by (metis sum.inject(2) truthy.simps(4) list.distinct(1))
  from t r have b: "first_nonempty (candidates_rest ?nft) = Some (JStr ''1999 T'')"
    by (metis sum.inject(2) truthy.simps(4) list.distinct(1))
  from s m r a b show ?thesis by blast
qed

text \<open>
  C8: every record is claimed to have its name resolved by this precedence, and to be
  dropped without error when every candidate is empty or missing. On the record
  \<^verbatim>\<open>{"id": "m1", "content": null}\<close> every candidate is missing, and the filter raises:
  in \<^verbatim>\<open>main.py\<close> \<^verbatim>\<open>nft.get('content', {})\<close> is \<^verbatim>\<open>None\<close>, which has no \<^verbatim>\<open>get\<close>; in
  \<^verbatim>\<open>nft_extractor.py\<close> \<^verbatim>\<open>'metadata' in nft['content']\<close> is asked of \<^verbatim>\<open>None\<close>, which
  is no container.
\<close>

theorem name_lookup_raises_on_null_content:
  "first_nonempty (candidates_main [(''id'', JStr ''m1''), (''content'', JNull)]) = None \<and>
   first_nonempty (candidates_rest [(''id'', JStr ''m1''), (''content'', JNull)]) = None \<and>
   filter_nfts_by_year_main [[(''id'', JStr ''m1''), (''content'', JNull)]] = Inl AttributeError \<and>
   filter_nfts_by_year_rest [[(''id'', JStr ''m1''), (''content'', JNull)]] = Inl TypeError"
  by code_simp

section \<open>Properties of the export\<close>

lemma export_to_csv_Some_nonempty:
  "export_to_csv nfts filename now w = Inr (Some path, w') \<Longrightarrow> nfts \<noteq> []"
  by (auto simp: export_to_csv_def)

lemma export_to_csv_Nil:
  "export_to_csv [] filename now w = Inr (None, w\<lparr>warnings := warnings w @ [''No NFTs to export'']\<rparr>)"
  by (simp add: export_to_csv_def)

text \<open>
  C10: on the empty list \<^verbatim>\<open>export_to_csv\<close> returns \<^verbatim>\<open>None\<close>, adds the warning
  and leaves every file as it was; whenever it returns a file name the input was not
  empty.
\<close>

theorem export_empty_nothing_to_export:
  "(\<exists>w'. export_to_csv [] filename now w = Inr (None, w') \<and> files w' = files w \<and>
       warnings w' = warnings w @ [''No NFTs to export'']) \<and>
   (export_to_csv nfts filename now w = Inr (Some path, w'') \<longrightarrow> nfts \<noteq> [])"
  using export_to_csv_Nil [of filename now w]
    export_to_csv_Some_nonempty [of nfts filename now w path w'']
  by simp

lemma flatten_empty_record:
  "flatten_metadata [] =
     Inr [(''mint_address'', JStr []), (''owner'', JStr []), (''frozen'', JBool False),
          (''delegated'', JBool False), (''name'', JStr []), (''symbol'', JStr []),
          (''description'', JStr []), (''image'', JStr []), (''animation_url'', JStr []),
          (''external_url'', JStr []), (''royalty_percent'', JInt 0),
          (''royalty_locked'', JBool False), (''supply_print_max_supply'', JInt 0),
          (''supply_print_current_supply'', JInt 0), (''supply_edition_nonce'', JStr [])]"
  by code_simp

lemma ex_sorted: "sorted_list_of_set (set (map fst [(''mint_address'', JStr []), (''owner'', JStr []), (''frozen'', JBool False),
          (''delegated'', JBool False), (''name'', JStr []), (''symbol'', JStr []),
          (''description'', JStr []), (''image'', JStr []), (''animation_url'', JStr []),
          (''external_url'', JStr []), (''royalty_percent'', JInt 0),
          (''royalty_locked'', JBool False), (''supply_print_max_supply'', JInt 0),
          (''supply_print_current_supply'', JInt 0), (''supply_edition_nonce'', JStr [])])) =
   [''animation_url'', ''delegated'', ''description'', ''external_url'', ''frozen'', ''image'',
    ''mint_address'', ''name'', ''owner'', ''royalty_locked'', ''royalty_percent'',
    ''supply_edition_nonce'', ''supply_print_current_supply'', ''supply_print_max_supply'',
    ''symbol'']"
  by code_simp

lemma export_to_csv_steps:
  assumes "nfts \<noteq> []"
    and "flatten_loop nfts [] {} = Inr (rows, all_fields)"
    and "write_loop (sorted_list_of_set all_fields) rows
           (dict_writeheader (sorted_list_of_set all_fields)) = Inr body"
  shows "export_to_csv nfts filename now w =
     Inr (Some (case filename of None \<Rightarrow> ''nft_metadata_'' @ now @ ''.csv'' | Some f \<Rightarrow> f),
          w\<lparr>files := (files w)
             ((case filename of None \<Rightarrow> ''nft_metadata_'' @ now @ ''.csv'' | Some f \<Rightarrow> f)
              \<mapsto> body)\<rparr>)"
  using assms by (simp add: export_to_csv_def bind_err_def Let_def)

lemma ex_export:
  "\<exists>body. export_to_csv [[]] (Some ''out.csv'') [] \<lparr>files = Map.empty, warnings = []\<rparr> =
     Inr (Some ''out.csv'', \<lparr>files = [''out.csv'' \<mapsto> body], warnings = []\<rparr>)"
proof -
  let ?row = "[(''mint_address'', JStr []), (''owner'', JStr []), (''frozen'', JBool False),
          (''delegated'', JBool False), (''name'', JStr []), (''symbol'', JStr []),
          (''description'', JStr []), (''image'', JStr []), (''animation_url'', JStr []),
          (''external_url'', JStr []), (''royalty_percent'', JInt 0),
          (''royalty_locked'', JBool False), (''supply_print_max_supply'', JInt 0),
          (''supply_print_current_supply'', JInt 0), (''supply_edition_nonce'', JStr [])]"
  let ?h = "sorted_list_of_set (set (map fst ?row))"
  have f: "flatten_loop [[]] [] {} = Inr ([?row], set (map fst ?row))"
    by (simp add: flatten_empty_record bind_err_def)
  have "\<exists>body. write_loop ?h [?row] (dict_writeheader ?h) = Inr body"
    unfolding ex_sorted by (simp add: bind_err_def dict_writerow_def)
  then obtain body where t: "write_loop ?h [?row] (dict_writeheader ?h) = Inr body" by blast
  have "export_to_csv [[]] (Some ''out.csv'') [] \<lparr>files = Map.empty, warnings = []\<rparr> =
     Inr (Some ''out.csv'', \<lparr>files = [''out.csv'' \<mapsto> body], warnings = []\<rparr>)"
    using export_to_csv_steps [OF _ f t, of "Some ''out.csv''" "[]"
        "\<lparr>files = Map.empty, warnings = []\<rparr>"]
    by simp
  then show ?thesis by blast
qed

theorem export_empty_nothing_to_export_witness:
  "\<exists>body. export_to_csv [[]] (Some ''out.csv'') [] \<lparr>files = Map.empty, warnings = []\<rparr> =
      Inr (Some ''out.csv'', \<lparr>files = [''out.csv'' \<mapsto> body], warnings = []\<rparr>) \<and>
    [[]] \<noteq> ([] :: pydict list) \<and>
    export_to_csv [] (Some ''out.csv'') [] \<lparr>files = Map.empty, warnings = []\<rparr> =
      Inr (None, \<lparr>files = Map.empty, warnings = [''No NFTs to export'']\<rparr>)"
proof -
  from ex_export obtain body where
    e: "export_to_csv [[]] (Some ''out.csv'') [] \<lparr>files = Map.empty, warnings = []\<rparr> =
      Inr (Some ''out.csv'', \<lparr>files = [''out.csv'' \<mapsto> body], warnings = []\<rparr>)"
    by blast
  note t = export_empty_nothing_to_export [of "Some ''out.csv''" "[]"
      "\<lparr>files = Map.empty, warnings = []\<rparr>" "[[]]" "''out.csv''"
      "\<lparr>files = [''out.csv'' \<mapsto> body], warnings = []\<rparr>"]
  from t e have n: "[[]] \<noteq> ([] :: pydict list)" by blast
  from t obtain w' where w: "export_to_csv [] (Some ''out.csv'') []
        \<lparr>files = Map.empty, warnings = []\<rparr> = Inr (None, w')"
      "files w' = Map.empty" "warnings w' = [''No NFTs to export'']"
    by auto
  have "w' = \<lparr>files = Map.empty, warnings = [''No NFTs to export'']\<rparr>"
    using w(2,3) by (cases w') simp
  with w(1) e n show ?thesis by blast
qed

section \<open>Properties of the flattening\<close>

text \<open>
  C1: \<^verbatim>\<open>flatten_metadata\<close> is claimed never to raise, also on a record whose nested
  fields hold values that are no dicts. On the record \<^verbatim>\<open>{"id": "m1", "supply": null}\<close>
  it raises \<^verbatim>\<open>AttributeError\<close>: \<^verbatim>\<open>nft.get('supply', {})\<close> is \<^verbatim>\<open>None\<close>, which has no
  \<^verbatim>\<open>get\<close>. The attributes, a few lines above, are guarded by \<^verbatim>\<open>isinstance\<close>.
\<close>

theorem flatten_metadata_raises_on_null_supply:
  "flatten_metadata [(''id'', JStr ''m1''), (''supply'', JNull)] = Inl AttributeError"
  by code_simp

lemma bind_err_InrE:
  assumes "bind_err m f = Inr y"
  obtains x where "m = Inr x" "f x = Inr y"
  using assms by (cases m) (simp_all add: bind_err_def)

lemma get_InrE:
  assumes "get x k dflt = Inr v"
  obtains d where "x = JDict d" "v = dict_get d k dflt"
  using assms by (cases x) simp_all

lemma attributes_loop_of_value:
  "(case v of JList attrs \<Rightarrow> attributes_loop 0 attrs fl | _ \<Rightarrow> fl) =
   attributes_loop 0 (case v of JList xs \<Rightarrow> xs | _ \<Rightarrow> []) fl"
  by (cases v) simp_all

lemma flatten_metadata_InrD:
  assumes "flatten_metadata nft = Inr row"
  shows "\<exists>own c roy sup groups fl.
     dict_get nft ''ownership'' (JDict []) = JDict own \<and>
     dict_get nft ''content'' (JDict []) = JDict c \<and>
     dict_get c ''metadata'' (JDict []) = JDict (metadata_of nft) \<and>
     dict_get nft ''royalty'' (JDict []) = JDict roy \<and>
     dict_get nft ''supply'' (JDict []) = JDict sup \<and>
     iterate (dict_get nft ''grouping'' (JList [])) = Inr groups \<and>
     grouping_loop groups
       (attributes_loop 0 (attributes_of nft) (head_fields nft own (metadata_of nft))) = Inr fl \<and>
     row = residual_loop (metadata_of nft) (tail_fields roy sup fl)"
proof -
  from assms obtain owner where
    o: "get (dict_get nft ''ownership'' (JDict [])) ''owner'' (JStr []) = Inr owner"
    unfolding flatten_metadata_def Let_def by (elim bind_err_InrE)
  then obtain own where own: "dict_get nft ''ownership'' (JDict []) = JDict own"
    by (elim get_InrE)
  from assms obtain metadata where
    m: "get (dict_get nft ''content'' (JDict [])) ''metadata'' (JDict []) = Inr metadata"
    unfolding flatten_metadata_def Let_def by (elim bind_err_InrE)
  then obtain c where c: "dict_get nft ''content'' (JDict []) = JDict c"
    and mc: "metadata = dict_get c ''metadata'' (JDict [])"
    by (elim get_InrE)
  from assms m obtain name where "get metadata ''name'' (JStr []) = Inr name"
    unfolding flatten_metadata_def Let_def by (elim bind_err_InrE) simp
  then obtain md where md: "metadata = JDict md"
    by (elim get_InrE)
  have cm: "dict_get c ''metadata'' (JDict []) = JDict md"
    using mc md by simp
  have mo: "metadata_of nft = md"
    by (simp add: metadata_of_def c cm)
  have ao: "attributes_of nft = (case dict_get md ''attributes'' (JList []) of JList xs \<Rightarrow> xs | _ \<Rightarrow> [])"
    by (simp add: attributes_of_def mo)
  have "flatten_metadata nft =
     bind_err (iterate (dict_get nft ''grouping'' (JList []))) (\<lambda>groups.
       bind_err (grouping_loop groups
           (attributes_loop 0 (attributes_of nft) (head_fields nft own md))) (\<lambda>flattened.
         bind_err (get (dict_get nft ''royalty'' (JDict [])) ''percent'' (JInt 0)) (\<lambda>percent.
         bind_err (get (dict_get nft ''royalty'' (JDict [])) ''locked'' (JBool False)) (\<lambda>locked.
         bind_err (get (dict_get nft ''supply'' (JDict [])) ''print_max_supply'' (JInt 0)) (\<lambda>s1.
         bind_err (get (dict_get nft ''supply'' (JDict [])) ''print_current_supply'' (JInt 0)) (\<lambda>s2.
         bind_err (get (dict_get nft ''supply'' (JDict [])) ''edition_nonce'' (JStr [])) (\<lambda>s3.
           Inr (residual_loop md
             (set_items [(''royalty_percent'', percent), (''royalty_locked'', locked),
                (''supply_print_max_supply'', s1), (''supply_print_current_supply'', s2),
                (''supply_edition_nonce'', s3)] flattened)))))))))"
    unfolding flatten_metadata_def Let_def own c
    by (simp add: cm bind_err_def head_fields_def set_items_def
        attributes_loop_of_value ao cong: sum.case_cong)
  with assms have
    "bind_err (iterate (dict_get nft ''grouping'' (JList []))) (\<lambda>groups.
       bind_err (grouping_loop groups
           (attributes_loop 0 (attributes_of nft) (head_fields nft own md))) (\<lambda>flattened.
         bind_err (get (dict_get nft ''royalty'' (JDict [])) ''percent'' (JInt 0)) (\<lambda>percent.
         bind_err (get (dict_get nft ''royalty'' (JDict [])) ''locked'' (JBool False)) (\<lambda>locked.
         bind_err (get (dict_get nft ''supply'' (JDict [])) ''print_max_supply'' (JInt 0)) (\<lambda>s1.
         bind_err (get (dict_get nft ''supply'' (JDict [])) ''print_current_supply'' (JInt 0)) (\<lambda>s2.
         bind_err (get (dict_get nft ''supply'' (JDict [])) ''edition_nonce'' (JStr [])) (\<lambda>s3.
           Inr (residual_loop md
             (set_items [(''royalty_percent'', percent), (''royalty_locked'', locked),
                (''supply_print_max_supply'', s1), (''supply_print_current_supply'', s2),
                (''supply_edition_nonce'', s3)] flattened))))))))) = Inr row"
    by simp
  then obtain groups fl percent locked s1 s2 s3 where
    g: "iterate (dict_get nft ''grouping'' (JList [])) = Inr groups"
    and fl: "grouping_loop groups
           (attributes_loop 0 (attributes_of nft) (head_fields nft own md)) = Inr fl"
    and p: "get (dict_get nft ''royalty'' (JDict [])) ''percent'' (JInt 0) = Inr percent"
    and l: "get (dict_get nft ''royalty'' (JDict [])) ''locked'' (JBool False) = Inr locked"
    and s1: "get (dict_get nft ''supply'' (JDict [])) ''print_max_supply'' (JInt 0) = Inr s1"
    and s2: "get (dict_get nft ''supply'' (JDict [])) ''print_current_supply'' (JInt 0) = Inr s2"
    and s3: "get (dict_get nft ''supply'' (JDict [])) ''edition_nonce'' (JStr []) = Inr s3"
    and row: "row = residual_loop md
             (set_items [(''royalty_percent'', percent), (''royalty_locked'', locked),
                (''supply_print_max_supply'', s1), (''supply_print_current_supply'', s2),
                (''supply_edition_nonce'', s3)] fl)"
    by (elim bind_err_InrE) simp
  from p obtain roy where roy: "dict_get nft ''royalty'' (JDict []) = JDict roy"
    by (elim get_InrE)
  from s1 obtain sup where sup: "dict_get nft ''supply'' (JDict []) = JDict sup"
    by (elim get_InrE)
  have "row = residual_loop md (tail_fields roy sup fl)"
    using row p l s1 s2 s3 unfolding roy sup tail_fields_def by simp
  then show ?thesis
    using own c cm mo g fl roy sup by auto
qed

lemma map_of_set_item: "map_of (set_item fl k v) c = (if c = k then Some v else map_of fl c)"
  by (simp add: set_item_def update_conv')

lemma keys_set_item: "fst ` set (set_item fl k v) = insert k (fst ` set fl)"
  by (simp add: set_item_def dom_update)

lemma map_of_set_items_frame:
  "c \<notin> fst ` set kvs \<Longrightarrow> map_of (set_items kvs fl) c = map_of fl c"
  unfolding set_items_def
  by (induction kvs arbitrary: fl) (auto simp: map_of_set_item)

lemma keys_set_items: "fst ` set (set_items kvs fl) = fst ` set fl \<union> fst ` set kvs"
  unfolding set_items_def
  by (induction kvs arbitrary: fl) (auto simp: keys_set_item)

lemma trait_column_JDict:
  "trait_column i a = Some col \<Longrightarrow> \<exists>d. a = JDict d"
  by (cases a) (simp_all add: trait_column_def)

lemma attributes_loop_Cons_dict:
  "trait_column i a = Some col \<Longrightarrow>
   attributes_loop i (a # attrs) fl = attributes_loop (Suc i) attrs (set_item fl col (attr_value a))"
  by (cases a) (simp_all add: trait_column_def attr_value_def Let_def)

lemma attributes_loop_Cons_other:
  "trait_column i a = None \<Longrightarrow>
   attributes_loop i (a # attrs) fl = attributes_loop (Suc i) attrs fl"
  by (cases a) (simp_all add: trait_column_def)

lemma attributes_loop_append:
  "attributes_loop i (xs @ ys) fl = attributes_loop (i + length xs) ys (attributes_loop i xs fl)"
proof (induction xs arbitrary: i fl)
  case Nil
  show ?case by simp
next
  case (Cons a xs)
  show ?case
  proof (cases "trait_column i a")
    case None
    then show ?thesis
      using Cons [of "Suc i" fl]
      by (simp add: attributes_loop_Cons_other del: attributes_loop.simps)
  next
    case (Some col)
    then show ?thesis
      using Cons [of "Suc i" "set_item fl col (attr_value a)"]
      by (simp add: attributes_loop_Cons_dict del: attributes_loop.simps)
  qed
qed

lemma attributes_loop_frame:
  "\<forall>p \<in> set (enumerate i attrs). trait_column (fst p) (snd p) \<noteq> Some col \<Longrightarrow>
   map_of (attributes_loop i attrs fl) col = map_of fl col"
proof (induction attrs arbitrary: i fl)
  case Nil
  show ?case by simp
next
  case (Cons a attrs)
  from Cons.prems have a: "trait_column i a \<noteq> Some col"
    and rest: "\<forall>p \<in> set (enumerate (Suc i) attrs). trait_column (fst p) (snd p) \<noteq> Some col"
    by simp_all
  show ?case
  proof (cases "trait_column i a")
    case None
    then show ?thesis
      using Cons.IH [OF rest]
      by (simp add: attributes_loop_Cons_other del: attributes_loop.simps)
  next
    case (Some k)
    with a have "col \<noteq> k" by auto
    then show ?thesis
      using Cons.IH [OF rest, of "set_item fl k (attr_value a)"] Some
      by (simp add: attributes_loop_Cons_dict map_of_set_item del: attributes_loop.simps)
  qed
qed

lemma attributes_loop_keys:
  "fst ` set (attributes_loop i attrs fl) =
   fst ` set fl \<union> {col. \<exists>p \<in> set (enumerate i attrs). trait_column (fst p) (snd p) = Some col}"
proof (induction attrs arbitrary: i fl)
  case Nil
  show ?case by simp
next
  case (Cons a attrs)
  show ?case
  proof (cases "trait_column i a")
    case None
    then show ?thesis
      using Cons [of "Suc i" fl]
      by (auto simp: attributes_loop_Cons_other simp del: attributes_loop.simps)
  next
    case (Some k)
    then show ?thesis
      using Cons [of "Suc i" "set_item fl k (attr_value a)"]
      by (auto simp: attributes_loop_Cons_dict keys_set_item simp del: attributes_loop.simps)
  qed
qed

lemma attributes_loop_mid:
  assumes "trait_column (length xs) a = Some col"
    and "\<forall>p \<in> set (enumerate (Suc (length xs)) ys). trait_column (fst p) (snd p) \<noteq> Some col"
  shows "map_of (attributes_loop 0 (xs @ a # ys) fl) col = Some (attr_value a)"
proof -
  have "attributes_loop 0 (xs @ a # ys) fl =
      attributes_loop (length xs) (a # ys) (attributes_loop 0 xs fl)"
    using attributes_loop_append [of 0 xs "a # ys" fl] by simp
  also have "\<dots> = attributes_loop (Suc (length xs)) ys
      (set_item (attributes_loop 0 xs fl) col (attr_value a))"
    using assms(1) by (rule attributes_loop_Cons_dict)
  finally show ?thesis
    using attributes_loop_frame [OF assms(2)] by (simp add: map_of_set_item)
qed

lemma attributes_loop_last:
  assumes "i < length attrs"
    and "trait_column i (attrs ! i) = Some col"
    and "\<forall>j. i < j \<and> j < length attrs \<longrightarrow> trait_column j (attrs ! j) \<noteq> Some col"
  shows "map_of (attributes_loop 0 attrs fl) col = Some (attr_value (attrs ! i))"
proof -
  let ?xs = "take i attrs" and ?ys = "drop (Suc i) attrs"
  have split: "?xs @ (attrs ! i) # ?ys = attrs"
    using id_take_nth_drop [OF assms(1)] by simp
  have len: "length ?xs = i" using assms(1) by simp
  have later: "\<forall>p \<in> set (enumerate (Suc (length ?xs)) ?ys).
      trait_column (fst p) (snd p) \<noteq> Some col"
    unfolding len
  proof
    fix p assume "p \<in> set (enumerate (Suc i) ?ys)"
    then have p: "Suc i \<le> fst p" "fst p < length ?ys + Suc i" "?ys ! (fst p - Suc i) = snd p"
      by (simp_all add: in_set_enumerate_eq)
    then have b: "fst p < length attrs" by simp
    have e: "attrs ! fst p = snd p"
      using p assms(1) by simp
    have "i < fst p" using p(1) by simp
    with assms(3) b have "trait_column (fst p) (attrs ! fst p) \<noteq> Some col"
      by blast
    then show "trait_column (fst p) (snd p) \<noteq> Some col"
      unfolding e .
  qed
  have here: "trait_column (length ?xs) (attrs ! i) = Some col"
    unfolding len by (rule assms(2))
  have "map_of (attributes_loop 0 (?xs @ (attrs ! i) # ?ys) fl) col = Some (attr_value (attrs ! i))"
    using here later by (rule attributes_loop_mid)
  then show ?thesis unfolding split .
qed

lemma grouping_loop_result:
  "grouping_loop groups fl = Inr fl' \<Longrightarrow>
   fl' = fl \<or> (\<exists>v. fl' = set_item fl ''collection_address'' v)"
proof (induction groups)
  case Nil
  then show ?case by simp
next
  case (Cons g groups)
  then show ?case
    by (cases g) (auto split: if_splits sum.splits)
qed

lemma grouping_loop_frame:
  "grouping_loop groups fl = Inr fl' \<Longrightarrow> col \<noteq> ''collection_address'' \<Longrightarrow>
   map_of fl' col = map_of fl col"
  using grouping_loop_result [of groups fl fl'] by (auto simp: map_of_set_item)

lemma residual_loop_append:
  "residual_loop (xs @ ys) fl = residual_loop ys (residual_loop xs fl)"
  by (induction xs fl rule: residual_loop.induct) (simp_all add: Let_def)

lemma residual_loop_frame:
  "\<forall>kv \<in> set items. \<not> (fst kv \<notin> set fixed_keys \<and> ''metadata_'' @ sanitize (fst kv) = col) \<Longrightarrow>
   map_of (residual_loop items fl) col = map_of fl col"
  by (induction items fl rule: residual_loop.induct)
     (auto simp: Let_def map_of_set_item)

lemma residual_loop_last:
  assumes "j < length items"
    and "items ! j = (key, val)"
    and "key \<notin> set fixed_keys"
    and "\<forall>j'. j < j' \<and> j' < length items \<longrightarrow>
          \<not> (fst (items ! j') \<notin> set fixed_keys \<and> sanitize (fst (items ! j')) = sanitize key)"
  shows "map_of (residual_loop items fl) (''metadata_'' @ sanitize key) = Some (JStr (residual_text val))"
proof -
  let ?xs = "take j items" and ?ys = "drop (Suc j) items"
  have split: "items = ?xs @ (key, val) # ?ys"
    using id_take_nth_drop [OF assms(1)] assms(2) by simp
  have later: "\<forall>kv \<in> set ?ys. \<not> (fst kv \<notin> set fixed_keys \<and>
      ''metadata_'' @ sanitize (fst kv) = ''metadata_'' @ sanitize key)"
  proof
    fix kv assume "kv \<in> set ?ys"
    then obtain n where n: "n < length ?ys" "?ys ! n = kv"
      by (auto simp: in_set_conv_nth)
    then have b: "Suc j + n < length items" and e: "items ! (Suc j + n) = kv"
      using assms(1) by simp_all
    have "j < Suc j + n" by simp
    with assms(4) b have "\<not> (fst (items ! (Suc j + n)) \<notin> set fixed_keys \<and>
        sanitize (fst (items ! (Suc j + n))) = sanitize key)"
      by blast
    then show "\<not> (fst kv \<notin> set fixed_keys \<and>
      ''metadata_'' @ sanitize (fst kv) = ''metadata_'' @ sanitize key)"
      unfolding e by simp
  qed
  have "residual_loop items fl = residual_loop ((key, val) # ?ys) (residual_loop ?xs fl)"
    using residual_loop_append [of ?xs "(key, val) # ?ys" fl] split by simp
  also have "\<dots> = residual_loop ?ys
      (set_item (residual_loop ?xs fl) (''metadata_'' @ sanitize key) (JStr (residual_text val)))"
    using assms(3) by (simp add: Let_def)
  finally show ?thesis
    using residual_loop_frame [OF later] by (simp add: map_of_set_item)
qed

lemma is_digit_char_of: "(k::nat) < 10 \<Longrightarrow> is_digit (char_of (48 + k))"
  by (simp add: is_digit_def)

lemma str_nat_digits: "c \<in> set (str_nat n) \<Longrightarrow> is_digit c"
proof (induction n rule: str_nat.induct)
  case (1 n)
  show ?case
  proof (cases "n < 10")
    case True
    then have "str_nat n = [char_of (48 + n)]"
      by (subst str_nat.simps) simp
    with "1.prems" True show ?thesis
      by (simp add: is_digit_char_of)
  next
    case False
    then have "str_nat n = str_nat (n div 10) @ [char_of (48 + n mod 10)]"
      by (subst str_nat.simps) simp
    with "1.prems" have "c \<in> set (str_nat (n div 10)) \<or> c = char_of (48 + n mod 10)"
      by auto
    then show ?thesis
    proof
      assume "c \<in> set (str_nat (n div 10))"
      with False show ?thesis by (rule "1.IH")
    next
      assume "c = char_of (48 + n mod 10)"
      then show ?thesis using is_digit_char_of [of "n mod 10"] by simp
    qed
  qed
qed

lemma residual_loop_present:
  "kv \<in> set items \<Longrightarrow> fst kv \<notin> set fixed_keys \<Longrightarrow>
   \<exists>v. map_of (residual_loop items fl) (''metadata_'' @ sanitize (fst kv)) = Some v"
proof (induction items arbitrary: fl rule: rev_induct)
  case Nil
  then show ?case by simp
next
  case (snoc x xs)
  obtain k v where x: "x = (k, v)" by (cases x)
  have step: "residual_loop (xs @ [(k, v)]) fl = residual_loop [(k, v)] (residual_loop xs fl)"
    by (rule residual_loop_append)
  show ?case
  proof (cases "k \<notin> set fixed_keys \<and> sanitize k = sanitize (fst kv)")
    case True
    then show ?thesis
      unfolding x step by (simp add: Let_def map_of_set_item)
  next
    case False
    with snoc.prems x have "kv \<in> set xs" by auto
    from snoc.IH [OF this snoc.prems(2), of fl] obtain w where
      w: "map_of (residual_loop xs fl) (''metadata_'' @ sanitize (fst kv)) = Some w"
      by blast
    show ?thesis
      unfolding x step using False w by (auto simp: Let_def map_of_set_item)
  qed
qed

lemma alnum_not_space: "is_alnum c \<Longrightarrow> \<not> is_space c"
  unfolding is_alnum_def is_space_def Let_def by linarith

lemma sanitize_plain:
  assumes "\<forall>c \<in> set s. is_alnum c \<or> c = CHR ''_''"
  shows "sanitize s = s"
proof -
  have ns: "\<forall>c \<in> set s. \<not> is_space c"
    using assms alnum_not_space not_space_underscore by blast
  have k: "filter kept_char s = s"
    using assms by (simp add: kept_char_def filter_id_conv) blast
  have "s = [] \<or> (\<not> is_space (hd s) \<and> \<not> is_space (last s))"
    using ns hd_in_set [of s] last_in_set [of s] by blast
  then have st: "strip s = s" by (rule strip_id)
  have "\<forall>c \<in> set s. space_to_underscore c = c"
    using ns is_space_space by (auto simp: space_to_underscore_def)
  then have m: "map space_to_underscore s = s"
    by (simp add: map_idI)
  show ?thesis
    unfolding sanitize_map sanitize_each_space_def k st m ..
qed

lemma digit_alnum: "is_digit c \<Longrightarrow> is_alnum c"
  by (simp add: is_digit_def is_alnum_def)

lemma sanitize_attribute_index: "sanitize (''attribute_'' @ str_nat i) = ''attribute_'' @ str_nat i"
proof (rule sanitize_plain)
  have "\<forall>c \<in> set ''attribute_''. is_alnum c \<or> c = CHR ''_''"
    by (simp add: is_alnum_def)
  moreover have "\<forall>c \<in> set (str_nat i). is_alnum c"
    using str_nat_digits digit_alnum by blast
  ultimately show "\<forall>c \<in> set (''attribute_'' @ str_nat i). is_alnum c \<or> c = CHR ''_''"
    by (simp only: set_append) blast
qed

lemma trait_column_missing:
  "map_of d ''trait_type'' = None \<Longrightarrow>
   trait_column i (JDict d) = Some (''trait_attribute_'' @ str_nat i)"
proof -
  assume "map_of d ''trait_type'' = None"
  then have "dict_get d ''trait_type'' (JStr (''attribute_'' @ str_nat i)) =
      JStr (''attribute_'' @ str_nat i)"
    by (simp add: dict_get_def)
  then have "trait_column i (JDict d) = Some (''trait_'' @ sanitize (''attribute_'' @ str_nat i))"
    by (simp only: trait_column_def json.case py_str.simps)
  also have "\<dots> = Some (''trait_'' @ ''attribute_'' @ str_nat i)"
    by (simp only: sanitize_attribute_index)
  also have "\<dots> = Some (''trait_attribute_'' @ str_nat i)"
    by simp
  finally show ?thesis .
qed

lemma trait_column_prefix: "trait_column i a = Some col \<Longrightarrow> \<exists>y. col = ''trait_'' @ y"
  unfolding trait_column_def by (cases a) (simp_all del: append.simps, blast)

lemma head_fields_keys:
  "fst ` set (head_fields nft own md) =
   {''mint_address'', ''owner'', ''frozen'', ''delegated'', ''name'', ''symbol'',
    ''description'', ''image'', ''animation_url'', ''external_url''}"
  unfolding head_fields_def keys_set_items by auto

lemma tail_fields_frame:
  "col \<notin> {''royalty_percent'', ''royalty_locked'', ''supply_print_max_supply'',
           ''supply_print_current_supply'', ''supply_edition_nonce''} \<Longrightarrow>
   map_of (tail_fields roy supl fl) col = map_of fl col"
  unfolding tail_fields_def by (rule map_of_set_items_frame) simp

lemma flatten_row_parts:
  assumes "flatten_metadata nft = Inr row"
  obtains own roy supl groups fl where
    "grouping_loop groups
       (attributes_loop 0 (attributes_of nft) (head_fields nft own (metadata_of nft))) = Inr fl"
    "row = residual_loop (metadata_of nft) (tail_fields roy supl fl)"
  using flatten_metadata_InrD [OF assms] by blast

lemma flatten_row_trait:
  assumes "flatten_metadata nft = Inr row"
  shows "\<exists>base. map_of base (''trait_'' @ x) = None \<and>
     map_of row (''trait_'' @ x) =
       map_of (attributes_loop 0 (attributes_of nft) base) (''trait_'' @ x)"
proof -
  from assms obtain own roy supl groups fl where
    g: "grouping_loop groups
       (attributes_loop 0 (attributes_of nft) (head_fields nft own (metadata_of nft))) = Inr fl"
    and r: "row = residual_loop (metadata_of nft) (tail_fields roy supl fl)"
    by (rule flatten_row_parts)
  let ?base = "head_fields nft own (metadata_of nft)"
  have "map_of row (''trait_'' @ x) = map_of (tail_fields roy supl fl) (''trait_'' @ x)"
    unfolding r by (rule residual_loop_frame) simp
  also have "\<dots> = map_of fl (''trait_'' @ x)"
    by (rule tail_fields_frame) simp
  also have "\<dots> = map_of (attributes_loop 0 (attributes_of nft) ?base) (''trait_'' @ x)"
    using g by (rule grouping_loop_frame) simp
  finally have 1: "map_of row (''trait_'' @ x) =
      map_of (attributes_loop 0 (attributes_of nft) ?base) (''trait_'' @ x)" .
  have "''trait_'' @ x \<notin> fst ` set ?base"
    unfolding head_fields_keys by simp
  then have "map_of ?base (''trait_'' @ x) = None"
    by (simp only: map_of_eq_None_iff not_False_eq_True)
  with 1 show ?thesis by blast
qed

lemma flatten_row_attribute:
  assumes "flatten_metadata nft = Inr row"
  shows "map_of row (''attribute_'' @ x) = None"
proof -
  from assms obtain own roy supl groups fl where
    g: "grouping_loop groups
       (attributes_loop 0 (attributes_of nft) (head_fields nft own (metadata_of nft))) = Inr fl"
    and r: "row = residual_loop (metadata_of nft) (tail_fields roy supl fl)"
    by (rule flatten_row_parts)
  let ?base = "head_fields nft own (metadata_of nft)"
  have "map_of row (''attribute_'' @ x) = map_of (tail_fields roy supl fl) (''attribute_'' @ x)"
    unfolding r by (rule residual_loop_frame) simp
  also have "\<dots> = map_of fl (''attribute_'' @ x)"
    by (rule tail_fields_frame) simp
  also have "\<dots> = map_of (attributes_loop 0 (attributes_of nft) ?base) (''attribute_'' @ x)"
    using g by (rule grouping_loop_frame) simp
  also have "\<dots> = map_of ?base (''attribute_'' @ x)"
  proof (rule attributes_loop_frame, rule ballI)
    fix p
    show "trait_column (fst p) (snd p) \<noteq> Some (''attribute_'' @ x)"
    proof
      assume "trait_column (fst p) (snd p) = Some (''attribute_'' @ x)"
      from trait_column_prefix [OF this] show False by simp
    qed
  qed
  also have "\<dots> = None"
  proof -
    have "''attribute_'' @ x \<notin> fst ` set ?base"
      unfolding head_fields_keys by simp
    then show ?thesis
      by (simp only: map_of_eq_None_iff not_False_eq_True)
  qed
  finally show ?thesis .
qed

lemma flatten_row_metadata:
  assumes "flatten_metadata nft = Inr row"
  shows "\<exists>fl. row = residual_loop (metadata_of nft) fl"
  using flatten_row_parts [OF assms] by metis

text \<open>
  C2, as stated: an entry of the attributes list that has no \<^verbatim>\<open>trait_type\<close>, at index 2,
  gives a column named \<^verbatim>\<open>attribute_2\<close>. The row has no such column; the value is in
  the column \<^verbatim>\<open>trait_attribute_2\<close>.
\<close>

theorem attribute_2_counterexample:
  "column (flatten_metadata
     [(''content'', JDict [(''metadata'', JDict [(''attributes'', JList
        [JDict [(''trait_type'', JStr ''A''), (''value'', JStr ''x'')],
         JDict [(''trait_type'', JStr ''B''), (''value'', JStr ''y'')],
         JDict [(''value'', JStr ''z'')]])])])]) ''attribute_2'' = None \<and>
   column (flatten_metadata
     [(''content'', JDict [(''metadata'', JDict [(''attributes'', JList
        [JDict [(''trait_type'', JStr ''A''), (''value'', JStr ''x'')],
         JDict [(''trait_type'', JStr ''B''), (''value'', JStr ''y'')],
         JDict [(''value'', JStr ''z'')]])])])]) ''trait_attribute_2'' = Some (JStr ''z'')"
  by code_simp

text \<open>
  C2, amended: whenever \<^verbatim>\<open>flatten_metadata\<close> returns a row for a record whose
  attributes list has, at index i, a dict with no \<^verbatim>\<open>trait_type\<close> key, the row has the
  column \<^verbatim>\<open>trait_attribute_<i>\<close> and no column \<^verbatim>\<open>attribute_<i>\<close>; the column holds
  the entry's \<^verbatim>\<open>value\<close> (the empty string when the entry has none) unless a later entry
  of the list is written to the same column.
\<close>

theorem missing_trait_type_column:
  assumes "flatten_metadata nft = Inr row"
    and "i < length (attributes_of nft)"
    and "attributes_of nft ! i = JDict d"
    and "map_of d ''trait_type'' = None"
  shows "map_of row (''attribute_'' @ str_nat i) = None \<and>
    (\<exists>v. map_of row (''trait_attribute_'' @ str_nat i) = Some v) \<and>
    ((\<forall>j. i < j \<and> j < length (attributes_of nft) \<longrightarrow>
          trait_column j (attributes_of nft ! j) \<noteq> Some (''trait_attribute_'' @ str_nat i)) \<longrightarrow>
      map_of row (''trait_attribute_'' @ str_nat i) = Some (dict_get d ''value'' (JStr [])))"
proof -
  let ?col = "''trait_attribute_'' @ str_nat i"
  have col: "?col = ''trait_'' @ (''attribute_'' @ str_nat i)" by simp
  have tc: "trait_column i (attributes_of nft ! i) = Some ?col"
    unfolding assms(3) using assms(4) by (rule trait_column_missing)
  from flatten_row_trait [OF assms(1), of "''attribute_'' @ str_nat i"] obtain base where
    b: "map_of base ?col = None"
    and r: "map_of row ?col = map_of (attributes_loop 0 (attributes_of nft) base) ?col"
    unfolding col [symmetric] by blast
  have "(i, attributes_of nft ! i) \<in> set (enumerate 0 (attributes_of nft))"
    using assms(2) by (simp add: in_set_enumerate_eq)
  with tc have "?col \<in> fst ` set (attributes_loop 0 (attributes_of nft) base)"
    unfolding attributes_loop_keys by force
  then have "map_of (attributes_loop 0 (attributes_of nft) base) ?col \<noteq> None"
    by (simp only: map_of_eq_None_iff not_not)
  then have present: "\<exists>v. map_of row ?col = Some v"
    unfolding r by blast
  have last: "map_of row ?col = Some (dict_get d ''value'' (JStr []))"
    if "\<forall>j. i < j \<and> j < length (attributes_of nft) \<longrightarrow>
          trait_column j (attributes_of nft ! j) \<noteq> Some ?col"
    using attributes_loop_last [OF assms(2) tc that, of base]
    unfolding r assms(3) by (simp add: attr_value_def)
  from flatten_row_attribute [OF assms(1)] present last show ?thesis by blast
qed

theorem missing_trait_type_column_witness:
  "flatten_metadata
     [(''content'', JDict [(''metadata'', JDict [(''attributes'', JList
        [JDict [(''trait_type'', JStr ''A''), (''value'', JStr ''x'')],
         JDict [(''trait_type'', JStr ''B''), (''value'', JStr ''y'')],
         JDict [(''value'', JStr ''z'')]])])])] =
   Inr (projr (flatten_metadata
     [(''content'', JDict [(''metadata'', JDict [(''attributes'', JList
        [JDict [(''trait_type'', JStr ''A''), (''value'', JStr ''x'')],
         JDict [(''trait_type'', JStr ''B''), (''value'', JStr ''y'')],
         JDict [(''value'', JStr ''z'')]])])])])) \<and>
   attributes_of
     [(''content'', JDict [(''metadata'', JDict [(''attributes'', JList
        [JDict [(''trait_type'', JStr ''A''), (''value'', JStr ''x'')],
         JDict [(''trait_type'', JStr ''B''), (''value'', JStr ''y'')],
         JDict [(''value'', JStr ''z'')]])])])] ! 2 = JDict [(''value'', JStr ''z'')] \<and>
   map_of [(''value'', JStr ''z'')] ''trait_type'' = None \<and>
   map_of (projr (flatten_metadata
     [(''content'', JDict [(''metadata'', JDict [(''attributes'', JList
        [JDict [(''trait_type'', JStr ''A''), (''value'', JStr ''x'')],
         JDict [(''trait_type'', JStr ''B''), (''value'', JStr ''y'')],
         JDict [(''value'', JStr ''z'')]])])])])) (''trait_attribute_'' @ str_nat 2) =
     Some (JStr ''z'') \<and>
   map_of (projr (flatten_metadata
     [(''content'', JDict [(''metadata'', JDict [(''attributes'', JList
        [JDict [(''trait_type'', JStr ''A''), (''value'', JStr ''x'')],
         JDict [(''trait_type'', JStr ''B''), (''value'', JStr ''y'')],
         JDict [(''value'', JStr ''z'')]])])])])) (''attribute_'' @ str_nat 2) = None"
proof -
  let ?nft = "[(''content'', JDict [(''metadata'', JDict [(''attributes'', JList
        [JDict [(''trait_type'', JStr ''A''), (''value'', JStr ''x'')],
         JDict [(''trait_type'', JStr ''B''), (''value'', JStr ''y'')],
         JDict [(''value'', JStr ''z'')]])])])]"
  let ?row = "projr (flatten_metadata ?nft)"
  have f: "flatten_metadata ?nft = Inr ?row"
    by code_simp
  have len: "length (attributes_of ?nft) = 3"
    by code_simp
  have i: "2 < length (attributes_of ?nft)"
    unfolding len by simp
  have a: "attributes_of ?nft ! 2 = JDict [(''value'', JStr ''z'')]"
    by code_simp
  have t: "map_of [(''value'', JStr ''z'')] ''trait_type'' = None"
    by simp
  have no_later: "\<forall>j. 2 < j \<and> j < length (attributes_of ?nft) \<longrightarrow>
      trait_column j (attributes_of ?nft ! j) \<noteq> Some (''trait_attribute_'' @ str_nat 2)"
    unfolding len by (intro allI impI) (elim conjE, arith)
  note inst = missing_trait_type_column [OF f i a t]
  from inst no_later have v: "map_of ?row (''trait_attribute_'' @ str_nat 2) =
      Some (dict_get [(''value'', JStr ''z'')] ''value'' (JStr []))"
    by blast
  have "dict_get [(''value'', JStr ''z'')] ''value'' (JStr []) = JStr ''z''"
    by (simp add: dict_get_def)
  with v have v': "map_of ?row (''trait_attribute_'' @ str_nat 2) = Some (JStr ''z'')"
    by simp
  from inst have n: "map_of ?row (''attribute_'' @ str_nat 2) = None"
    by blast
  from f a t v' n show ?thesis by blast
qed

text \<open>
  C7, as stated: every key of the metadata outside the fixed ones gives a column that holds
  the text of its own value. With the keys \<^verbatim>\<open>a!\<close> and \<^verbatim>\<open>a\<close>, in this order, both are
  written to the column \<^verbatim>\<open>metadata_a\<close>, which is left holding the text of the second
  value, not of the first.
\<close>

theorem metadata_key_collision_counterexample:
  "column (flatten_metadata
     [(''content'', JDict [(''metadata'', JDict [(''a!'', JInt 1), (''a'', JInt 2)])])])
     (''metadata_'' @ sanitize ''a!'') = Some (JStr ''2'') \<and>
   residual_text (JInt 1) = ''1''"
  by code_simp

text \<open>
  C7, amended: whenever \<^verbatim>\<open>flatten_metadata\<close> returns a row, each key of
  \<^verbatim>\<open>content.metadata\<close> other than name, symbol, description, image, animation_url,
  external_url and attributes has its column \<^verbatim>\<open>metadata_<sanitized key>\<close> in the row; the
  column holds the JSON serialization of the key's value when that value is a dict or a
  list, and its \<^verbatim>\<open>str\<close> otherwise, provided no later key of the metadata outside the
  fixed ones has the same sanitized name.
\<close>

theorem residual_metadata_column:
  assumes "flatten_metadata nft = Inr row"
    and "j < length (metadata_of nft)"
    and "metadata_of nft ! j = (key, val)"
    and "key \<notin> set fixed_keys"
  shows "(\<exists>v. map_of row (''metadata_'' @ sanitize key) = Some v) \<and>
    ((\<forall>j'. j < j' \<and> j' < length (metadata_of nft) \<longrightarrow>
          \<not> (fst (metadata_of nft ! j') \<notin> set fixed_keys \<and>
             sanitize (fst (metadata_of nft ! j')) = sanitize key)) \<longrightarrow>
      map_of row (''metadata_'' @ sanitize key) = Some (JStr (residual_text val)))"
proof -
  from flatten_row_metadata [OF assms(1)] obtain fl where
    r: "row = residual_loop (metadata_of nft) fl" by blast
  have "(key, val) \<in> set (metadata_of nft)"
    using assms(2,3) nth_mem by fastforce
  from residual_loop_present [OF this, of fl] assms(4)
  have present: "\<exists>v. map_of row (''metadata_'' @ sanitize key) = Some v"
    unfolding r by simp
  have last: "map_of row (''metadata_'' @ sanitize key) = Some (JStr (residual_text val))"
    if "\<forall>j'. j < j' \<and> j' < length (metadata_of nft) \<longrightarrow>
          \<not> (fst (metadata_of nft ! j') \<notin> set fixed_keys \<and>
             sanitize (fst (metadata_of nft ! j')) = sanitize key)"
    unfolding r using assms(2,3,4) that by (rule residual_loop_last)
  from present last show ?thesis by blast
qed

theorem residual_metadata_column_witness:
  "flatten_metadata
     [(''content'', JDict [(''metadata'', JDict
        [(''Custom Tag!'', JDict [(''a'', JInt 1)])])])] =
   Inr (projr (flatten_metadata
     [(''content'', JDict [(''metadata'', JDict
        [(''Custom Tag!'', JDict [(''a'', JInt 1)])])])])) \<and>
   metadata_of
     [(''content'', JDict [(''metadata'', JDict
        [(''Custom Tag!'', JDict [(''a'', JInt 1)])])])] ! 0 =
     (''Custom Tag!'', JDict [(''a'', JInt 1)]) \<and>
   map_of (projr (flatten_metadata
     [(''content'', JDict [(''metadata'', JDict
        [(''Custom Tag!'', JDict [(''a'', JInt 1)])])])])) ''metadata_Custom_Tag'' =
     Some (JStr [CHR ''{'', CHR 0x22, CHR ''a'', CHR 0x22, CHR '':'', CHR '' '', CHR ''1'',
                 CHR ''}''])"
proof -
  let ?nft = "[(''content'', JDict [(''metadata'', JDict
        [(''Custom Tag!'', JDict [(''a'', JInt 1)])])])]"
  let ?row = "projr (flatten_metadata ?nft)"
  have f: "flatten_metadata ?nft = Inr ?row"
    by code_simp
  have len: "length (metadata_of ?nft) = 1"
    by code_simp
  have j: "0 < length (metadata_of ?nft)"
    unfolding len by simp
  have m: "metadata_of ?nft ! 0 = (''Custom Tag!'', JDict [(''a'', JInt 1)])"
    by code_simp
  have k: "''Custom Tag!'' \<notin> set fixed_keys"
    by (simp add: fixed_keys_def)
  have no_later: "\<forall>j'. 0 < j' \<and> j' < length (metadata_of ?nft) \<longrightarrow>
          \<not> (fst (metadata_of ?nft ! j') \<notin> set fixed_keys \<and>
             sanitize (fst (metadata_of ?nft ! j')) = sanitize ''Custom Tag!'')"
    unfolding len by (intro allI impI) (elim conjE, arith)
  note inst = residual_metadata_column [OF f j m k]
  from inst no_later have v: "map_of ?row (''metadata_'' @ sanitize ''Custom Tag!'') =
      Some (JStr (residual_text (JDict [(''a'', JInt 1)])))"
    by blast
  have s: "''metadata_'' @ sanitize ''Custom Tag!'' = ''metadata_Custom_Tag''"
    by code_simp
  have t: "residual_text (JDict [(''a'', JInt 1)]) =
      [CHR ''{'', CHR 0x22, CHR ''a'', CHR 0x22, CHR '':'', CHR '' '', CHR ''1'', CHR ''}'']"
    by code_simp
  from v have "map_of ?row ''metadata_Custom_Tag'' =
     Some (JStr [CHR ''{'', CHR 0x22, CHR ''a'', CHR 0x22, CHR '':'', CHR '' '', CHR ''1'',
                 CHR ''}''])"
    unfolding s t .
  with f m show ?thesis by blast
qed

section \<open>Properties of the reader\<close>

text \<open>The reader in one pass gives what the reader gives line by line, and reads the records
  of the writer back when no field is longer than the limit.\<close>

lemma feed_snoc:
  "feed r (xs @ [c]) = bind_err (feed r xs) (\<lambda>r. parse_process_char r (Some c))"
  by (induction xs arbitrary: r) (simp_all add: bind_err_def split: sum.splits)

lemma feed_append:
  "feed r (xs @ ys) = bind_err (feed r xs) (\<lambda>r. feed r ys)"
  by (induction xs arbitrary: r) (simp_all add: bind_err_def split: sum.splits)

lemma lines_from_hd:
  "cur \<noteq> [] \<Longrightarrow> \<exists>p ls. lines_from cur s = (cur @ p) # ls"
proof (induction cur s rule: lines_from.induct)
  case (1 cur)
  then show ?case by simp
next
  case (2 cur c)
  then show ?case by simp
next
  case (3 cur c d ds)
  show ?case
  proof (cases "c = CHR 0x0A \<or> c = CHR 0x0D")
    case True
    then show ?thesis by auto
  next
    case False
    with "3.IH"(4) obtain p ls where "lines_from (cur @ [c]) (d # ds) = ((cur @ [c]) @ p) # ls"
      by auto
    with False show ?thesis by simp
  qed
qed

lemma reader_loop_feed_error:
  assumes "feed r0 cur = Inl e"
  shows "reader_loop r0 (lines_from cur s) acc = Inl e"
proof -
  from assms have "cur \<noteq> []" by auto
  from lines_from_hd [OF this, of s] obtain p ls where "lines_from cur s = (cur @ p) # ls"
    by blast
  with assms show ?thesis by (simp add: feed_append bind_err_def)
qed

lemma bind_line_end_cong:
  assumes "\<And>r records'. f r records' = g r records'"
  shows "bind_err (line_end v records) (\<lambda>(r, records'). f r records') =
         bind_err (line_end v records) (\<lambda>(r, records'). g r records')"
  using assms by simp

lemma reader_loop_one_pass:
  "feed r0 cur = Inr v \<Longrightarrow>
   reader_loop r0 (lines_from cur s) acc = one_pass (cur \<noteq> []) v s acc"
proof (induction cur s arbitrary: r0 v acc rule: lines_from.induct)
  case (1 cur)
  then show ?case
    by (cases "cur = []"; cases "line_end v acc") (auto simp: bind_err_def)
next
  case (2 cur c)
  then show ?case by (auto simp: feed_snoc bind_err_def split: sum.splits)
next
  case (3 cur c d ds)
  have fc: "feed r0 (cur @ [c]) = parse_process_char v (Some c)"
    using "3.prems" by (simp add: feed_snoc bind_err_def)
  show ?case
  proof (cases "parse_process_char v (Some c)")
    case (Inl e)
    with fc have e: "feed r0 (cur @ [c]) = Inl e" by simp
    then have e2: "feed r0 (cur @ [c, d]) = Inl e"
      using feed_append [of r0 "cur @ [c]" "[d]"] by (simp add: bind_err_def)
    from e have "reader_loop r0 (lines_from (cur @ [c]) (d # ds)) acc = Inl e"
      by (rule reader_loop_feed_error)
    with Inl e e2 show ?thesis by (auto simp: bind_err_def)
  next
    case (Inr v1)
    with fc have v1: "feed r0 (cur @ [c]) = Inr v1" by simp
    show ?thesis
    proof (cases "c = CHR 0x0A")
      case True
      have "\<And>r records'. reader_loop r (lines_from [] (d # ds)) records' =
              one_pass False r (d # ds) records'"
        using "3.IH"(1) [OF True, of _ _] by simp
      with True Inr v1 show ?thesis
        by (auto simp: bind_err_def split: sum.splits)
    next
      case nlf: False
      show ?thesis
      proof (cases "c = CHR 0x0D")
        case cr: True
        show ?thesis
        proof (cases "d = CHR 0x0A")
          case True
          have ih: "\<And>r records'. reader_loop r (lines_from [] ds) records' =
              one_pass False r ds records'"
            using "3.IH"(2) [OF nlf cr True, of _ _] by simp
          have "feed r0 (cur @ [c, d]) = parse_process_char v1 (Some d)"
            using feed_snoc [of r0 "cur @ [c]" d] v1 by (simp add: bind_err_def)
          with nlf cr True Inr ih show ?thesis
            by (auto simp: bind_err_def split: sum.splits)
        next
          case False
          have "\<And>r records'. reader_loop r (lines_from [] (d # ds)) records' =
              one_pass False r (d # ds) records'"
            using "3.IH"(3) [OF nlf cr False, of _ _] by simp
          with nlf cr False Inr v1 show ?thesis
            by (auto simp: bind_err_def split: sum.splits)
        qed
      next
        case False
        from "3.IH"(4) [OF nlf False v1] nlf False Inr show ?thesis
          by (simp add: bind_err_def)
      qed
    qed
  qed
qed

lemma csv_reader_one_pass: "csv_reader s = one_pass False parse_reset s []"
  using reader_loop_one_pass [of parse_reset "[]" parse_reset s "[]"]
  by (simp add: csv_reader_def readlines_def)

lemma one_pass_mid:
  "xs \<noteq> [] \<Longrightarrow> one_pass m v xs acc = one_pass True v xs acc"
proof (cases xs)
  case Nil
  assume "xs \<noteq> []"
  with Nil show ?thesis by simp
next
  case (Cons c cs)
  then show ?thesis by (cases cs) simp_all
qed

lemma line_end_in_quoted:
  "line_end \<lparr>state = IN_QUOTED_FIELD, field_buf = b, fields_read = fs\<rparr> acc =
     Inr (\<lparr>state = IN_QUOTED_FIELD, field_buf = b, fields_read = fs\<rparr>, acc)"
  by (simp add: line_end_def parse_process_char_def bind_err_def)

lemma within_limit_append: "within_limit (b @ f) \<Longrightarrow> within_limit b"
  by (simp add: within_limit_def)

lemma within_limit_snoc:
  "within_limit (b @ c # f) \<Longrightarrow> int (length b) < field_limit \<and> within_limit ((b @ [c]) @ f)"
  by (simp add: within_limit_def)

lemma quoted_step:
  assumes "xs \<noteq> []" and "c \<noteq> CHR 0x22" and "int (length b) < field_limit"
  shows "one_pass m \<lparr>state = IN_QUOTED_FIELD, field_buf = b, fields_read = fs\<rparr> (c # xs) acc =
         one_pass True \<lparr>state = IN_QUOTED_FIELD, field_buf = b @ [c], fields_read = fs\<rparr> xs acc"
proof -
  from assms(1) obtain d ds where xs: "xs = d # ds" by (cases xs) auto
  show ?thesis
  proof (cases ds)
    case Nil
    with xs assms(2,3) show ?thesis
      by (simp add: parse_process_char_def parse_add_char_def bind_err_def line_end_in_quoted)
  next
    case (Cons e es)
    with xs assms(2,3) show ?thesis
      by (simp add: parse_process_char_def parse_add_char_def bind_err_def line_end_in_quoted)
  qed
qed

lemma quoted_quote_step:
  assumes "xs \<noteq> []" and "int (length b) < field_limit"
  shows "one_pass m \<lparr>state = IN_QUOTED_FIELD, field_buf = b, fields_read = fs\<rparr>
           (CHR 0x22 # CHR 0x22 # xs) acc =
         one_pass True \<lparr>state = IN_QUOTED_FIELD, field_buf = b @ [CHR 0x22], fields_read = fs\<rparr>
           xs acc"
proof -
  from assms(1) obtain d ds where xs: "xs = d # ds" by (cases xs) auto
  with assms(2) show ?thesis
    by (simp add: parse_process_char_def parse_add_char_def bind_err_def)
qed

lemma quoted_close:
  assumes "xs \<noteq> []"
  shows "one_pass m \<lparr>state = IN_QUOTED_FIELD, field_buf = b, fields_read = fs\<rparr>
           (CHR 0x22 # xs) acc =
         one_pass True \<lparr>state = QUOTE_IN_QUOTED_FIELD, field_buf = b, fields_read = fs\<rparr>
           xs acc"
proof -
  from assms(1) obtain d ds where xs: "xs = d # ds" by (cases xs) auto
  then show ?thesis
    by (simp add: parse_process_char_def parse_add_char_def bind_err_def)
qed

lemma double_quotes_Cons:
  "double_quotes (c # f) = (if c = CHR 0x22 then [c, c] else [c]) @ double_quotes f"
  by (simp add: double_quotes_def)

lemma quoted_content:
  assumes "rest \<noteq> []"
  shows "within_limit (b @ f) \<Longrightarrow>
         one_pass m \<lparr>state = IN_QUOTED_FIELD, field_buf = b, fields_read = fs\<rparr>
           (double_quotes f @ CHR 0x22 # rest) acc =
         one_pass True \<lparr>state = QUOTE_IN_QUOTED_FIELD, field_buf = b @ f, fields_read = fs\<rparr>
           rest acc"
proof (induction f arbitrary: m b)
  case Nil
  then show ?case using quoted_close [OF assms] by (simp add: double_quotes_def)
next
  case (Cons c f)
  from within_limit_snoc [OF Cons.prems] have
    b: "int (length b) < field_limit" and bc: "within_limit ((b @ [c]) @ f)" by simp_all
  show ?case
  proof (cases "c = CHR 0x22")
    case True
    have "one_pass m \<lparr>state = IN_QUOTED_FIELD, field_buf = b, fields_read = fs\<rparr>
            (CHR 0x22 # CHR 0x22 # (double_quotes f @ CHR 0x22 # rest)) acc =
          one_pass True \<lparr>state = IN_QUOTED_FIELD, field_buf = b @ [CHR 0x22], fields_read = fs\<rparr>
            (double_quotes f @ CHR 0x22 # rest) acc"
      by (rule quoted_quote_step) (simp_all add: b)
    with True Cons.IH [OF bc, of True] show ?thesis
      by (simp add: double_quotes_Cons)
  next
    case False
    have "one_pass m \<lparr>state = IN_QUOTED_FIELD, field_buf = b, fields_read = fs\<rparr>
            (c # (double_quotes f @ CHR 0x22 # rest)) acc =
          one_pass True \<lparr>state = IN_QUOTED_FIELD, field_buf = b @ [c], fields_read = fs\<rparr>
            (double_quotes f @ CHR 0x22 # rest) acc"
      by (rule quoted_step) (simp_all add: False b)
    with False Cons.IH [OF bc, of True] show ?thesis
      by (simp add: double_quotes_Cons)
  qed
qed

lemma plain_step:
  assumes "xs \<noteq> []" and "\<not> needs_quote c" and "int (length b) < field_limit"
  shows "one_pass m \<lparr>state = IN_FIELD, field_buf = b, fields_read = fs\<rparr> (c # xs) acc =
         one_pass True \<lparr>state = IN_FIELD, field_buf = b @ [c], fields_read = fs\<rparr> xs acc"
proof -
  from assms(1) obtain d ds where xs: "xs = d # ds" by (cases xs) auto
  with assms(2,3) show ?thesis
    by (simp add: parse_process_char_def parse_add_char_def bind_err_def needs_quote_def
        is_newline_def)
qed

lemma plain_content:
  assumes "rest \<noteq> []"
  shows "\<not> list_ex needs_quote f \<Longrightarrow> within_limit (b @ f) \<Longrightarrow>
         one_pass m \<lparr>state = IN_FIELD, field_buf = b, fields_read = fs\<rparr> (f @ rest) acc =
         one_pass True \<lparr>state = IN_FIELD, field_buf = b @ f, fields_read = fs\<rparr> rest acc"
proof (induction f arbitrary: m b)
  case Nil
  then show ?case using one_pass_mid [OF assms(1)] by simp
next
  case (Cons c f)
  from within_limit_snoc [OF Cons.prems(2)] have
    b: "int (length b) < field_limit" and bc: "within_limit ((b @ [c]) @ f)" by simp_all
  have "one_pass m \<lparr>state = IN_FIELD, field_buf = b, fields_read = fs\<rparr> (c # (f @ rest)) acc =
        one_pass True \<lparr>state = IN_FIELD, field_buf = b @ [c], fields_read = fs\<rparr> (f @ rest) acc"
    by (rule plain_step) (use Cons.prems assms(1) b in simp_all)
  with Cons.IH [OF _ bc, of True] Cons.prems(1) show ?case by simp
qed

lemma plain_start:
  assumes "xs \<noteq> []" and "\<not> needs_quote c" and "s0 = START_RECORD \<or> s0 = START_FIELD"
  shows "one_pass m \<lparr>state = s0, field_buf = [], fields_read = fs\<rparr> (c # xs) acc =
         one_pass True \<lparr>state = IN_FIELD, field_buf = [c], fields_read = fs\<rparr> xs acc"
proof -
  from assms(1) obtain d ds where xs: "xs = d # ds" by (cases xs) auto
  with assms(2,3) show ?thesis
    by (auto simp: parse_process_char_def start_field_def parse_add_char_def bind_err_def
        needs_quote_def is_newline_def field_limit_def)
qed

lemma quoted_start:
  assumes "xs \<noteq> []" and "s0 = START_RECORD \<or> s0 = START_FIELD"
  shows "one_pass m \<lparr>state = s0, field_buf = [], fields_read = fs\<rparr> (CHR 0x22 # xs) acc =
         one_pass True \<lparr>state = IN_QUOTED_FIELD, field_buf = [], fields_read = fs\<rparr> xs acc"
proof -
  from assms(1) obtain d ds where xs: "xs = d # ds" by (cases xs) auto
  with assms(2) show ?thesis
    by (auto simp: parse_process_char_def start_field_def parse_add_char_def bind_err_def
        is_newline_def)
qed

text \<open>The reader after a field as the writer writes it, before the delimiter or the line
  terminator that follows it.\<close>

lemma field_read:
  assumes "rest \<noteq> []" and "s0 = START_RECORD \<or> s0 = START_FIELD" and "within_limit f"
  shows "one_pass m \<lparr>state = s0, field_buf = [], fields_read = fs\<rparr> (csv_field f @ rest) acc =
         one_pass True
           (if list_ex needs_quote f
            then \<lparr>state = QUOTE_IN_QUOTED_FIELD, field_buf = f, fields_read = fs\<rparr>
            else if f = [] then \<lparr>state = s0, field_buf = [], fields_read = fs\<rparr>
            else \<lparr>state = IN_FIELD, field_buf = f, fields_read = fs\<rparr>) rest acc"
proof (cases "list_ex needs_quote f")
  case True
  have "one_pass m \<lparr>state = s0, field_buf = [], fields_read = fs\<rparr>
          (CHR 0x22 # (double_quotes f @ CHR 0x22 # rest)) acc =
        one_pass True \<lparr>state = IN_QUOTED_FIELD, field_buf = [], fields_read = fs\<rparr>
          (double_quotes f @ CHR 0x22 # rest) acc"
    by (rule quoted_start) (simp_all add: assms(2))
  with True quoted_content [OF assms(1), of "[]" f True fs acc] assms(3) show ?thesis
    by (simp add: csv_field_def)
next
  case False
  show ?thesis
  proof (cases f)
    case Nil
    with False one_pass_mid [OF assms(1)] show ?thesis by (simp add: csv_field_def)
  next
    case (Cons c cs)
    with False have c: "\<not> needs_quote c" and cs: "\<not> list_ex needs_quote cs" by simp_all
    have "one_pass m \<lparr>state = s0, field_buf = [], fields_read = fs\<rparr> (c # (cs @ rest)) acc =
          one_pass True \<lparr>state = IN_FIELD, field_buf = [c], fields_read = fs\<rparr> (cs @ rest) acc"
      by (rule plain_start) (simp_all add: assms c)
    with plain_content [OF assms(1) cs, of "[c]" True fs acc] False Cons assms(3) show ?thesis
      by (simp add: csv_field_def)
  qed
qed

lemma field_and_delimiter:
  assumes "xs \<noteq> []" and "s0 = START_RECORD \<or> s0 = START_FIELD" and "within_limit f"
  shows "one_pass m \<lparr>state = s0, field_buf = [], fields_read = fs\<rparr>
           (csv_field f @ CHR '','' # xs) acc =
         one_pass True \<lparr>state = START_FIELD, field_buf = [], fields_read = fs @ [f]\<rparr> xs acc"
proof -
  from assms(1) obtain d ds where xs: "xs = d # ds" by (cases xs) auto
  show ?thesis
    unfolding field_read [of "CHR '','' # xs" s0, OF _ assms(2,3), simplified]
    using assms(2) xs
    by (auto simp: parse_process_char_def start_field_def parse_save_field_def bind_err_def
        is_newline_def)
qed

lemma field_and_terminator:
  assumes "s0 = START_RECORD \<or> s0 = START_FIELD" and "s0 = START_FIELD \<or> f \<noteq> []"
    and "within_limit f"
  shows "one_pass m \<lparr>state = s0, field_buf = [], fields_read = fs\<rparr>
           (csv_field f @ CHR 0x0D # CHR 0x0A # rest) acc =
         one_pass False parse_reset rest (acc @ [fs @ [f]])"
  unfolding field_read [of "CHR 0x0D # CHR 0x0A # rest" s0, OF _ assms(1,3), simplified]
  using assms(1,2)
  by (auto simp: parse_process_char_def start_field_def parse_save_field_def bind_err_def
      is_newline_def line_end_def)

lemma record_read:
  assumes "s0 = START_RECORD \<or> s0 = START_FIELD" and "row \<noteq> []"
    and "s0 = START_FIELD \<or> row \<noteq> [[]]" and "list_all within_limit row"
  shows "one_pass m \<lparr>state = s0, field_buf = [], fields_read = fs\<rparr>
           (join '','' (map csv_field row) @ CHR 0x0D # CHR 0x0A # rest) acc =
         one_pass False parse_reset rest (acc @ [fs @ row])"
  using assms
proof (induction row arbitrary: m s0 fs rule: induct_list012)
  case 1
  then show ?case by simp
next
  case (2 f)
  then show ?case using field_and_terminator [of s0 f m fs rest acc] by simp
next
  case (3 f g gs)
  have "one_pass m \<lparr>state = s0, field_buf = [], fields_read = fs\<rparr>
          (csv_field f @ CHR '','' # (join '','' (map csv_field (g # gs)) @ CHR 0x0D # CHR 0x0A # rest))
          acc =
        one_pass True \<lparr>state = START_FIELD, field_buf = [], fields_read = fs @ [f]\<rparr>
          (join '','' (map csv_field (g # gs)) @ CHR 0x0D # CHR 0x0A # rest) acc"
    by (rule field_and_delimiter) (use "3.prems" in simp_all)
  moreover have "one_pass True \<lparr>state = START_FIELD, field_buf = [], fields_read = fs @ [f]\<rparr>
          (join '','' (map csv_field (g # gs)) @ CHR 0x0D # CHR 0x0A # rest) acc =
        one_pass False parse_reset rest (acc @ [(fs @ [f]) @ g # gs])"
    by (rule "3.IH"(2)) (use "3.prems"(4) in simp_all)
  ultimately show ?case by simp
qed

lemma csv_record_read:
  assumes "list_all within_limit row"
  shows "one_pass m parse_reset (csv_record row @ rest) acc =
         one_pass False parse_reset rest (acc @ [row])"
proof (cases "row = []")
  case True
  then show ?thesis
    by (simp add: csv_record_def parse_reset_def parse_process_char_def bind_err_def
        is_newline_def line_end_def)
next
  case ne: False
  show ?thesis
  proof (cases "row = [[]]")
    case True
    then show ?thesis
      by (simp add: csv_record_def parse_reset_def parse_process_char_def start_field_def
          parse_save_field_def bind_err_def is_newline_def line_end_def)
  next
    case False
    with ne assms record_read [of START_RECORD row m "[]" rest acc] show ?thesis
      by (simp add: csv_record_def parse_reset_def)
  qed
qed

lemma one_pass_records:
  "list_all (list_all within_limit) rows \<Longrightarrow>
   one_pass False parse_reset (concat (map csv_record rows)) acc = Inr (acc @ rows)"
proof (induction rows arbitrary: acc)
  case Nil
  then show ?case by (simp add: at_end_def parse_reset_def)
next
  case (Cons row rows)
  then show ?case using csv_record_read [of row False "concat (map csv_record rows)" acc] by simp
qed

text \<open>A field longer than the limit: the reader raises.\<close>

lemma one_pass_error:
  "parse_process_char v (Some c) = Inl e \<Longrightarrow> one_pass m v (c # xs) acc = Inl e"
proof (cases xs)
  case Nil
  assume "parse_process_char v (Some c) = Inl e"
  with Nil show ?thesis by (simp add: bind_err_def)
next
  case (Cons d ds)
  assume "parse_process_char v (Some c) = Inl e"
  with Cons show ?thesis by (simp add: bind_err_def)
qed

lemma within_limit_step:
  "int (length b) < field_limit \<Longrightarrow> within_limit (b @ [c])"
  by (simp add: within_limit_def)

lemma plain_content_over:
  assumes "rest \<noteq> []"
  shows "\<not> list_ex needs_quote f \<Longrightarrow> within_limit b \<Longrightarrow> \<not> within_limit (b @ f) \<Longrightarrow>
         one_pass m \<lparr>state = IN_FIELD, field_buf = b, fields_read = fs\<rparr> (f @ rest) acc =
         Inl CsvError"
proof (induction f arbitrary: m b)
  case Nil
  then show ?case by simp
next
  case (Cons c f)
  show ?case
  proof (cases "int (length b) < field_limit")
    case True
    have "one_pass m \<lparr>state = IN_FIELD, field_buf = b, fields_read = fs\<rparr> (c # (f @ rest)) acc =
          one_pass True \<lparr>state = IN_FIELD, field_buf = b @ [c], fields_read = fs\<rparr> (f @ rest) acc"
      by (rule plain_step) (use Cons.prems assms True in simp_all)
    moreover have "one_pass True \<lparr>state = IN_FIELD, field_buf = b @ [c], fields_read = fs\<rparr>
        (f @ rest) acc = Inl CsvError"
      by (rule Cons.IH) (use Cons.prems within_limit_step [OF True] in simp_all)
    ultimately show ?thesis by simp
  next
    case False
    with Cons.prems(1) have
      "parse_process_char \<lparr>state = IN_FIELD, field_buf = b, fields_read = fs\<rparr> (Some c) =
       Inl CsvError"
      by (simp add: parse_process_char_def parse_add_char_def needs_quote_def is_newline_def)
    from one_pass_error [OF this] show ?thesis by simp
  qed
qed

lemma quoted_content_over:
  assumes "rest \<noteq> []"
  shows "within_limit b \<Longrightarrow> \<not> within_limit (b @ f) \<Longrightarrow>
         one_pass m \<lparr>state = IN_QUOTED_FIELD, field_buf = b, fields_read = fs\<rparr>
           (double_quotes f @ CHR 0x22 # rest) acc =
         Inl CsvError"
proof (induction f arbitrary: m b)
  case Nil
  then show ?case by simp
next
  case (Cons c f)
  show ?case
  proof (cases "int (length b) < field_limit")
    case True
    have ih: "one_pass True \<lparr>state = IN_QUOTED_FIELD, field_buf = b @ [c], fields_read = fs\<rparr>
        (double_quotes f @ CHR 0x22 # rest) acc = Inl CsvError"
      by (rule Cons.IH) (use Cons.prems within_limit_step [OF True] in simp_all)
    show ?thesis
    proof (cases "c = CHR 0x22")
      case q: True
      have "one_pass m \<lparr>state = IN_QUOTED_FIELD, field_buf = b, fields_read = fs\<rparr>
              (CHR 0x22 # CHR 0x22 # (double_quotes f @ CHR 0x22 # rest)) acc =
            one_pass True \<lparr>state = IN_QUOTED_FIELD, field_buf = b @ [CHR 0x22], fields_read = fs\<rparr>
              (double_quotes f @ CHR 0x22 # rest) acc"
        by (rule quoted_quote_step) (simp_all add: True)
      with q ih show ?thesis by (simp add: double_quotes_Cons)
    next
      case nq: False
      have "one_pass m \<lparr>state = IN_QUOTED_FIELD, field_buf = b, fields_read = fs\<rparr>
              (c # (double_quotes f @ CHR 0x22 # rest)) acc =
            one_pass True \<lparr>state = IN_QUOTED_FIELD, field_buf = b @ [c], fields_read = fs\<rparr>
              (double_quotes f @ CHR 0x22 # rest) acc"
        by (rule quoted_step) (simp_all add: nq True)
      with nq ih show ?thesis by (simp add: double_quotes_Cons)
    qed
  next
    case False
    show ?thesis
    proof (cases "c = CHR 0x22")
      case q: True
      have "parse_process_char
              \<lparr>state = QUOTE_IN_QUOTED_FIELD, field_buf = b, fields_read = fs\<rparr> (Some CHR 0x22) =
            Inl CsvError"
        using False by (simp add: parse_process_char_def parse_add_char_def bind_err_def)
      from one_pass_error [OF this] have
        "one_pass True \<lparr>state = QUOTE_IN_QUOTED_FIELD, field_buf = b, fields_read = fs\<rparr>
           (CHR 0x22 # (double_quotes f @ CHR 0x22 # rest)) acc = Inl CsvError" .
      moreover have "one_pass m \<lparr>state = IN_QUOTED_FIELD, field_buf = b, fields_read = fs\<rparr>
           (CHR 0x22 # (CHR 0x22 # (double_quotes f @ CHR 0x22 # rest))) acc =
         one_pass True \<lparr>state = QUOTE_IN_QUOTED_FIELD, field_buf = b, fields_read = fs\<rparr>
           (CHR 0x22 # (double_quotes f @ CHR 0x22 # rest)) acc"
        by (rule quoted_close) simp
      ultimately show ?thesis using q by (simp add: double_quotes_Cons)
    next
      case nq: False
      with False have
        "parse_process_char \<lparr>state = IN_QUOTED_FIELD, field_buf = b, fields_read = fs\<rparr> (Some c) =
         Inl CsvError"
        by (simp add: parse_process_char_def parse_add_char_def)
      from one_pass_error [OF this] nq show ?thesis by (simp add: double_quotes_Cons)
    qed
  qed
qed

lemma field_read_over:
  assumes "rest \<noteq> []" and "s0 = START_RECORD \<or> s0 = START_FIELD" and "\<not> within_limit f"
  shows "one_pass m \<lparr>state = s0, field_buf = [], fields_read = fs\<rparr> (csv_field f @ rest) acc =
         Inl CsvError"
proof (cases "list_ex needs_quote f")
  case True
  have "one_pass m \<lparr>state = s0, field_buf = [], fields_read = fs\<rparr>
          (CHR 0x22 # (double_quotes f @ CHR 0x22 # rest)) acc =
        one_pass True \<lparr>state = IN_QUOTED_FIELD, field_buf = [], fields_read = fs\<rparr>
          (double_quotes f @ CHR 0x22 # rest) acc"
    by (rule quoted_start) (simp_all add: assms(2))
  moreover have "one_pass True \<lparr>state = IN_QUOTED_FIELD, field_buf = [], fields_read = fs\<rparr>
          (double_quotes f @ CHR 0x22 # rest) acc = Inl CsvError"
    by (rule quoted_content_over [OF assms(1)])
       (use assms(3) in \<open>simp_all add: within_limit_def field_limit_def\<close>)
  ultimately show ?thesis using True by (simp add: csv_field_def)
next
  case False
  from assms(3) obtain c cs where f: "f = c # cs"
    by (cases f) (simp_all add: within_limit_def field_limit_def)
  with False have c: "\<not> needs_quote c" and cs: "\<not> list_ex needs_quote cs" by simp_all
  have "one_pass m \<lparr>state = s0, field_buf = [], fields_read = fs\<rparr> (c # (cs @ rest)) acc =
        one_pass True \<lparr>state = IN_FIELD, field_buf = [c], fields_read = fs\<rparr> (cs @ rest) acc"
    by (rule plain_start) (simp_all add: assms c)
  moreover have "one_pass True \<lparr>state = IN_FIELD, field_buf = [c], fields_read = fs\<rparr>
        (cs @ rest) acc = Inl CsvError"
    by (rule plain_content_over [OF assms(1) cs])
       (use assms(3) f in \<open>simp_all add: within_limit_def field_limit_def\<close>)
  ultimately show ?thesis using False f by (simp add: csv_field_def)
qed

lemma record_read_over:
  assumes "s0 = START_RECORD \<or> s0 = START_FIELD" and "\<not> list_all within_limit row"
  shows "one_pass m \<lparr>state = s0, field_buf = [], fields_read = fs\<rparr>
           (join '','' (map csv_field row) @ CHR 0x0D # CHR 0x0A # rest) acc =
         Inl CsvError"
  using assms
proof (induction row arbitrary: m s0 fs rule: induct_list012)
  case 1
  then show ?case by simp
next
  case (2 f)
  then show ?case
    using field_read_over [of "CHR 0x0D # CHR 0x0A # rest" s0 f m fs acc] by simp
next
  case (3 f g gs)
  show ?case
  proof (cases "within_limit f")
    case True
    have "one_pass m \<lparr>state = s0, field_buf = [], fields_read = fs\<rparr>
          (csv_field f @ CHR '','' # (join '','' (map csv_field (g # gs)) @ CHR 0x0D # CHR 0x0A # rest))
          acc =
        one_pass True \<lparr>state = START_FIELD, field_buf = [], fields_read = fs @ [f]\<rparr>
          (join '','' (map csv_field (g # gs)) @ CHR 0x0D # CHR 0x0A # rest) acc"
      by (rule field_and_delimiter) (use "3.prems" True in simp_all)
    moreover have "one_pass True \<lparr>state = START_FIELD, field_buf = [], fields_read = fs @ [f]\<rparr>
          (join '','' (map csv_field (g # gs)) @ CHR 0x0D # CHR 0x0A # rest) acc = Inl CsvError"
      by (rule "3.IH"(2)) (use "3.prems"(2) True in simp_all)
    ultimately show ?thesis by simp
  next
    case False
    from field_read_over [of "CHR '','' # (join '','' (map csv_field (g # gs)) @
        CHR 0x0D # CHR 0x0A # rest)" s0 f m fs acc] "3.prems"(1) False
    show ?thesis by simp
  qed
qed

lemma csv_record_read_over:
  assumes "\<not> list_all within_limit row"
  shows "one_pass m parse_reset (csv_record row @ rest) acc = Inl CsvError"
proof -
  from assms have "row \<noteq> [[]]" by (auto simp: within_limit_def field_limit_def)
  with assms record_read_over [of START_RECORD row m "[]" rest acc] show ?thesis
    by (simp add: csv_record_def parse_reset_def)
qed

lemma one_pass_records_over:
  "\<not> list_all (list_all within_limit) rows \<Longrightarrow>
   one_pass False parse_reset (concat (map csv_record rows)) acc = Inl CsvError"
proof (induction rows arbitrary: acc)
  case Nil
  then show ?case by simp
next
  case (Cons row rows)
  show ?case
  proof (cases "list_all within_limit row")
    case True
    with Cons csv_record_read [of row False "concat (map csv_record rows)" acc] show ?thesis
      by simp
  next
    case False
    with csv_record_read_over [of row False "concat (map csv_record rows)" acc] show ?thesis
      by simp
  qed
qed

text \<open>The records of the writer, read back.\<close>

lemma csv_reader_csv_records:
  "csv_reader (concat (map csv_record rows)) =
     (if list_all (list_all within_limit) rows then Inr rows else Inl CsvError)"
  using one_pass_records [of rows "[]"] one_pass_records_over [of rows "[]"]
  by (simp add: csv_reader_one_pass)

section \<open>Properties of the exported file\<close>

lemma flatten_loop_flat_rows:
  "flatten_loop nfts acc fs =
     bind_err (flat_rows nfts) (\<lambda>rows.
       Inr (acc @ rows, fs \<union> (\<Union>row \<in> set rows. set (map fst row))))"
proof (induction nfts arbitrary: acc fs)
  case Nil
  then show ?case by (simp add: bind_err_def)
next
  case (Cons nft nfts)
  show ?case
  proof (cases "flatten_metadata nft")
    case (Inl e)
    then show ?thesis by (simp add: bind_err_def)
  next
    case (Inr row)
    then show ?thesis
      by (cases "flat_rows nfts") (simp_all add: Cons.IH bind_err_def Un_assoc)
  qed
qed

lemma dict_to_list_comprehension:
  "dict_to_list h (map (\<lambda>field. (field, dict_get nft field (JStr []))) h) = project h nft"
  by (simp add: dict_to_list_def project_def dict_get_def map_of_map_restrict)

lemma write_loop_project:
  "write_loop h rows body = Inr (body @ concat (map (\<lambda>row. writerow (project h row)) rows))"
proof (induction rows arbitrary: body)
  case Nil
  then show ?case by simp
next
  case (Cons row rows)
  have "dict_writerow h (map (\<lambda>field. (field, dict_get row field (JStr []))) h) =
        Inr (writerow (project h row))"
    by (simp add: dict_writerow_def dict_to_list_comprehension list_ex_iff o_def)
  then show ?case by (simp add: Cons.IH bind_err_def Let_def)
qed

lemma export_to_csv_text:
  assumes "nfts \<noteq> []" and "flat_rows nfts = Inr rows"
  shows "export_to_csv nfts filename now w =
     Inr (Some (case filename of None \<Rightarrow> ''nft_metadata_'' @ now @ ''.csv'' | Some f \<Rightarrow> f),
          w\<lparr>files := (files w)
             ((case filename of None \<Rightarrow> ''nft_metadata_'' @ now @ ''.csv'' | Some f \<Rightarrow> f)
              \<mapsto> dict_writeheader (header_of rows) @
                 concat (map (\<lambda>row. writerow (project (header_of rows) row)) rows))\<rparr>)"
proof -
  have f: "flatten_loop nfts [] {} = Inr (rows, \<Union>row \<in> set rows. set (map fst row))"
    using assms(2) by (simp add: flatten_loop_flat_rows bind_err_def)
  show ?thesis
    using export_to_csv_steps [OF assms(1) f write_loop_project]
    by (simp add: header_of_def)
qed

lemma header_of_sorted_union:
  "sorted (header_of rows) \<and> distinct (header_of rows) \<and>
   set (header_of rows) = (\<Union>row \<in> set rows. set (map fst row))"
  by (simp add: header_of_def)

lemma project_length: "length (project header row) = length header"
  by (simp add: project_def)

lemma csv_cell_text: "csv_cell v = (if v = JNull then [] else py_str v)"
  by (cases v) simp_all

lemma csv_cell_project: "map csv_cell (project header row) = cells_of csv_cell header row"
  by (induction header) (simp_all add: project_def cells_of_def split: option.splits)

lemma writerow_cells:
  "writerow (map JStr header) = csv_record header"
  "writerow (project header row) = csv_record (cells_of csv_cell header row)"
  by (simp_all add: writerow_def csv_cell_project o_def)

text \<open>What \<^verbatim>\<open>export_to_csv\<close> writes: the records of the table, header first.\<close>

lemma export_to_csv_table:
  assumes "nfts \<noteq> []" and "flat_rows nfts = Inr rows"
  shows "export_to_csv nfts filename now w =
     Inr (Some (case filename of None \<Rightarrow> ''nft_metadata_'' @ now @ ''.csv'' | Some f \<Rightarrow> f),
          w\<lparr>files := (files w)
             ((case filename of None \<Rightarrow> ''nft_metadata_'' @ now @ ''.csv'' | Some f \<Rightarrow> f)
              \<mapsto> concat (map csv_record (table_of rows)))\<rparr>)"
proof -
  have "dict_writeheader (header_of rows) @
          concat (map (\<lambda>row. writerow (project (header_of rows) row)) rows) =
        concat (map csv_record (table_of rows))"
    by (simp add: dict_writeheader_def writerow_cells table_of_def o_def)
  with export_to_csv_text [OF assms, of filename now w] show ?thesis by simp
qed

lemma table_of_cell:
  assumes "i < length rows" and "j < length (header_of rows)"
  shows "map (cells_of csv_cell (header_of rows)) rows ! i ! j =
         (case map_of (rows ! i) (header_of rows ! j) of None \<Rightarrow> [] | Some v \<Rightarrow> csv_cell v)"
  using assms by (simp add: cells_of_def)

lemma cells_of_length: "length (cells_of as_text header row) = length header"
  by (simp add: cells_of_def)

text \<open>
  C5. When a non-empty list of records is exported and every record is flattened without an
  exception, the file is written, and its text is the header and then one line per
  flattened row, in order, as \<^verbatim>\<open>csv.writer\<close> writes them. The header is the sorted union
  of the keys of the rows, without repetition; the line of a row holds one cell per field of
  the header: what the writer writes for the value of the row under the field, and the empty
  string where the row has no such field. Read by \<^verbatim>\<open>csv.reader\<close>, the file gives this
  header and these lines; a cell longer than the reader's limit makes the reader raise.
\<close>

theorem export_header_and_rows:
  assumes "nfts \<noteq> []" and "flat_rows nfts = Inr rows"
  shows "\<exists>path w' s header lines.
     export_to_csv nfts filename now w = Inr (Some path, w') \<and>
     files w' path = Some s \<and>
     table_of rows = header # lines \<and>
     s = concat (map csv_record (header # lines)) \<and>
     csv_reader s =
       (if list_all (list_all within_limit) (header # lines) then Inr (header # lines)
        else Inl CsvError) \<and>
     sorted header \<and> distinct header \<and>
     set header = (\<Union>row \<in> set rows. set (map fst row)) \<and>
     length lines = length rows \<and>
     (\<forall>i < length rows. length (lines ! i) = length header \<and>
        (\<forall>j < length header.
           lines ! i ! j =
             (case map_of (rows ! i) (header ! j) of None \<Rightarrow> [] | Some v \<Rightarrow> csv_cell v)))"
proof -
  let ?h = "header_of rows"
  let ?ls = "map (cells_of csv_cell ?h) rows"
  let ?p = "case filename of None \<Rightarrow> ''nft_metadata_'' @ now @ ''.csv'' | Some f \<Rightarrow> f"
  let ?s = "concat (map csv_record (?h # ?ls))"
  let ?w = "w\<lparr>files := (files w)(?p \<mapsto> ?s)\<rparr>"
  have e: "export_to_csv nfts filename now w = Inr (Some ?p, ?w)"
    using export_to_csv_table [OF assms, of filename now w] by (simp add: table_of_def)
  have f: "files ?w ?p = Some ?s" by simp
  have t: "table_of rows = ?h # ?ls" by (simp add: table_of_def)
  have r: "csv_reader ?s =
      (if list_all (list_all within_limit) (?h # ?ls) then Inr (?h # ?ls) else Inl CsvError)"
    by (rule csv_reader_csv_records)
  have h: "sorted ?h \<and> distinct ?h \<and> set ?h = (\<Union>row \<in> set rows. set (map fst row))"
    by (rule header_of_sorted_union)
  have l: "length ?ls = length rows" by simp
  have c: "\<forall>i < length rows. length (?ls ! i) = length ?h \<and>
        (\<forall>j < length ?h.
           ?ls ! i ! j =
             (case map_of (rows ! i) (?h ! j) of None \<Rightarrow> [] | Some v \<Rightarrow> csv_cell v))"
    using table_of_cell [of _ rows] by (simp add: cells_of_length)
  from e f t r h l c show ?thesis by blast
qed

lemma ex_two_records:
  "flat_rows
    [[(''id'', JStr ''m,1''),
         (''grouping'', JList [JDict [(''group_key'', JStr ''collection''),
                                      (''group_value'', JStr ''C1'')]])],
        [(''id'', JStr ''m2'')]] =
   Inr (projr (flat_rows
    [[(''id'', JStr ''m,1''),
         (''grouping'', JList [JDict [(''group_key'', JStr ''collection''),
                                      (''group_value'', JStr ''C1'')]])],
        [(''id'', JStr ''m2'')]]))"
  by code_simp

lemma ex_two_records_table:
  "table_of (projr (flat_rows
    [[(''id'', JStr ''m,1''),
         (''grouping'', JList [JDict [(''group_key'', JStr ''collection''),
                                      (''group_value'', JStr ''C1'')]])],
        [(''id'', JStr ''m2'')]])) =
     [[''animation_url'', ''collection_address'', ''delegated'', ''description'',
       ''external_url'', ''frozen'', ''image'', ''mint_address'', ''name'', ''owner'',
       ''royalty_locked'', ''royalty_percent'', ''supply_edition_nonce'',
       ''supply_print_current_supply'', ''supply_print_max_supply'', ''symbol''],
      [[], ''C1'', ''False'', [], [], ''False'', [], ''m,1'', [], [], ''False'', ''0'', [],
       ''0'', ''0'', []],
      [[], [], ''False'', [], [], ''False'', [], ''m2'', [], [], ''False'', ''0'', [],
       ''0'', ''0'', []]]"
  by code_simp

lemma ex_two_records_limit:
  "list_all (list_all within_limit)
     [[''animation_url'', ''collection_address'', ''delegated'', ''description'',
       ''external_url'', ''frozen'', ''image'', ''mint_address'', ''name'', ''owner'',
       ''royalty_locked'', ''royalty_percent'', ''supply_edition_nonce'',
       ''supply_print_current_supply'', ''supply_print_max_supply'', ''symbol''],
      [[], ''C1'', ''False'', [], [], ''False'', [], ''m,1'', [], [], ''False'', ''0'', [],
       ''0'', ''0'', []],
      [[], [], ''False'', [], [], ''False'', [], ''m2'', [], [], ''False'', ''0'', [],
       ''0'', ''0'', []]]"
  by code_simp

lemma ex_two_records_text:
  "concat (map csv_record
     [[''animation_url'', ''collection_address'', ''delegated'', ''description'',
       ''external_url'', ''frozen'', ''image'', ''mint_address'', ''name'', ''owner'',
       ''royalty_locked'', ''royalty_percent'', ''supply_edition_nonce'',
       ''supply_print_current_supply'', ''supply_print_max_supply'', ''symbol''],
      [[], ''C1'', ''False'', [], [], ''False'', [], ''m,1'', [], [], ''False'', ''0'', [],
       ''0'', ''0'', []],
      [[], [], ''False'', [], [], ''False'', [], ''m2'', [], [], ''False'', ''0'', [],
       ''0'', ''0'', []]]) =
   (''animation_url,collection_address,delegated,description,external_url,frozen,image,'' @
      ''mint_address,name,owner,royalty_locked,royalty_percent,supply_edition_nonce,'' @
      ''supply_print_current_supply,supply_print_max_supply,symbol'' @ [CHR 0x0D, CHR 0x0A] @
      '',C1,False,,,False,,'' @ [CHR 0x22] @ ''m,1'' @ [CHR 0x22] @ '',,,False,0,,0,0,'' @
      [CHR 0x0D, CHR 0x0A] @
      '',,False,,,False,,m2,,,False,0,,0,0,'' @ [CHR 0x0D, CHR 0x0A])"
  by code_simp

theorem export_header_and_rows_witness:
  "[[(''id'', JStr ''m,1''),
         (''grouping'', JList [JDict [(''group_key'', JStr ''collection''),
                                      (''group_value'', JStr ''C1'')]])],
        [(''id'', JStr ''m2'')]] \<noteq> [] \<and>
   flat_rows
    [[(''id'', JStr ''m,1''),
         (''grouping'', JList [JDict [(''group_key'', JStr ''collection''),
                                      (''group_value'', JStr ''C1'')]])],
        [(''id'', JStr ''m2'')]] =
   Inr (projr (flat_rows
    [[(''id'', JStr ''m,1''),
         (''grouping'', JList [JDict [(''group_key'', JStr ''collection''),
                                      (''group_value'', JStr ''C1'')]])],
        [(''id'', JStr ''m2'')]])) \<and>
   table_of (projr (flat_rows
    [[(''id'', JStr ''m,1''),
         (''grouping'', JList [JDict [(''group_key'', JStr ''collection''),
                                      (''group_value'', JStr ''C1'')]])],
        [(''id'', JStr ''m2'')]])) =
     [[''animation_url'', ''collection_address'', ''delegated'', ''description'',
       ''external_url'', ''frozen'', ''image'', ''mint_address'', ''name'', ''owner'',
       ''royalty_locked'', ''royalty_percent'', ''supply_edition_nonce'',
       ''supply_print_current_supply'', ''supply_print_max_supply'', ''symbol''],
      [[], ''C1'', ''False'', [], [], ''False'', [], ''m,1'', [], [], ''False'', ''0'', [],
       ''0'', ''0'', []],
      [[], [], ''False'', [], [], ''False'', [], ''m2'', [], [], ''False'', ''0'', [],
       ''0'', ''0'', []]] \<and>
   (\<exists>path w'.
      export_to_csv
        [[(''id'', JStr ''m,1''),
         (''grouping'', JList [JDict [(''group_key'', JStr ''collection''),
                                      (''group_value'', JStr ''C1'')]])],
        [(''id'', JStr ''m2'')]]
        None ''20240101_120000'' \<lparr>files = Map.empty, warnings = []\<rparr> = Inr (Some path, w') \<and>
      files w' path = Some
        (''animation_url,collection_address,delegated,description,external_url,frozen,image,'' @
      ''mint_address,name,owner,royalty_locked,royalty_percent,supply_edition_nonce,'' @
      ''supply_print_current_supply,supply_print_max_supply,symbol'' @ [CHR 0x0D, CHR 0x0A] @
      '',C1,False,,,False,,'' @ [CHR 0x22] @ ''m,1'' @ [CHR 0x22] @ '',,,False,0,,0,0,'' @
      [CHR 0x0D, CHR 0x0A] @
      '',,False,,,False,,m2,,,False,0,,0,0,'' @ [CHR 0x0D, CHR 0x0A]) \<and>
      csv_reader
        (''animation_url,collection_address,delegated,description,external_url,frozen,image,'' @
      ''mint_address,name,owner,royalty_locked,royalty_percent,supply_edition_nonce,'' @
      ''supply_print_current_supply,supply_print_max_supply,symbol'' @ [CHR 0x0D, CHR 0x0A] @
      '',C1,False,,,False,,'' @ [CHR 0x22] @ ''m,1'' @ [CHR 0x22] @ '',,,False,0,,0,0,'' @
      [CHR 0x0D, CHR 0x0A] @
      '',,False,,,False,,m2,,,False,0,,0,0,'' @ [CHR 0x0D, CHR 0x0A]) =
      Inr [[''animation_url'', ''collection_address'', ''delegated'', ''description'',
       ''external_url'', ''frozen'', ''image'', ''mint_address'', ''name'', ''owner'',
       ''royalty_locked'', ''royalty_percent'', ''supply_edition_nonce'',
       ''supply_print_current_supply'', ''supply_print_max_supply'', ''symbol''],
      [[], ''C1'', ''False'', [], [], ''False'', [], ''m,1'', [], [], ''False'', ''0'', [],
       ''0'', ''0'', []],
      [[], [], ''False'', [], [], ''False'', [], ''m2'', [], [], ''False'', ''0'', [],
       ''0'', ''0'', []]])"
proof -
  have n: "[[(''id'', JStr ''m,1''),
         (''grouping'', JList [JDict [(''group_key'', JStr ''collection''),
                                      (''group_value'', JStr ''C1'')]])],
        [(''id'', JStr ''m2'')]] \<noteq> []"
    by simp
  from export_header_and_rows [OF n ex_two_records, of None "''20240101_120000''"
      "\<lparr>files = Map.empty, warnings = []\<rparr>"]
  obtain path w' s header lines where
    e: "export_to_csv
        [[(''id'', JStr ''m,1''),
         (''grouping'', JList [JDict [(''group_key'', JStr ''collection''),
                                      (''group_value'', JStr ''C1'')]])],
        [(''id'', JStr ''m2'')]]
        None ''20240101_120000'' \<lparr>files = Map.empty, warnings = []\<rparr> = Inr (Some path, w')"
    and f: "files w' path = Some s"
    and t: "table_of (projr (flat_rows
        [[(''id'', JStr ''m,1''),
         (''grouping'', JList [JDict [(''group_key'', JStr ''collection''),
                                      (''group_value'', JStr ''C1'')]])],
        [(''id'', JStr ''m2'')]])) = header # lines"
    and s: "s = concat (map csv_record (header # lines))"
    and r: "csv_reader s =
       (if list_all (list_all within_limit) (header # lines) then Inr (header # lines)
        else Inl CsvError)"
    by blast
  from t have hl: "header # lines =
     [[''animation_url'', ''collection_address'', ''delegated'', ''description'',
       ''external_url'', ''frozen'', ''image'', ''mint_address'', ''name'', ''owner'',
       ''royalty_locked'', ''royalty_percent'', ''supply_edition_nonce'',
       ''supply_print_current_supply'', ''supply_print_max_supply'', ''symbol''],
      [[], ''C1'', ''False'', [], [], ''False'', [], ''m,1'', [], [], ''False'', ''0'', [],
       ''0'', ''0'', []],
      [[], [], ''False'', [], [], ''False'', [], ''m2'', [], [], ''False'', ''0'', [],
       ''0'', ''0'', []]]"
    by (simp only: ex_two_records_table)
  from s have s': "s =
        (''animation_url,collection_address,delegated,description,external_url,frozen,image,'' @
      ''mint_address,name,owner,royalty_locked,royalty_percent,supply_edition_nonce,'' @
      ''supply_print_current_supply,supply_print_max_supply,symbol'' @ [CHR 0x0D, CHR 0x0A] @
      '',C1,False,,,False,,'' @ [CHR 0x22] @ ''m,1'' @ [CHR 0x22] @ '',,,False,0,,0,0,'' @
      [CHR 0x0D, CHR 0x0A] @
      '',,False,,,False,,m2,,,False,0,,0,0,'' @ [CHR 0x0D, CHR 0x0A])"
    by (simp only: hl ex_two_records_text)
  from r have "csv_reader s = Inr (header # lines)"
    unfolding hl by (simp only: ex_two_records_limit if_True)
  with e f n ex_two_records ex_two_records_table show ?thesis
    unfolding hl s' by blast
qed

text \<open>
  C6, the counterexample. The record has an attribute whose value is \<^verbatim>\<open>null\<close>. The
  flattened row has the value \<^verbatim>\<open>None\<close> under \<^verbatim>\<open>trait_Rarity\<close>, the text of which is
  \<^verbatim>\<open>None\<close>; the cell read back from the file is the empty string.
\<close>

theorem null_value_counterexample:
  "column (flatten_metadata
     [(''content'', JDict [(''metadata'', JDict [(''attributes'',
        JList [JDict [(''trait_type'', JStr ''Rarity''), (''value'', JNull)]])])])])
     ''trait_Rarity'' = Some JNull \<and>
   py_str JNull = ''None'' \<and>
   read_cell
     [[(''content'', JDict [(''metadata'', JDict [(''attributes'',
        JList [JDict [(''trait_type'', JStr ''Rarity''), (''value'', JNull)]])])])]]
     0 ''trait_Rarity'' = Some []"
  by code_simp

text \<open>
  C6, amended. When a non-empty list of records is exported and every record is flattened
  without an exception, reading the file back with \<^verbatim>\<open>csv.reader\<close> gives, when no field
  name and no cell as written is longer than the limit of the reader, 131072 characters,
  the header and then, for every flattened row in order and every field of the header, the
  value of the row under the field as the writer writes it, or the empty string where the
  row has no such field; with a longer cell the reader raises \<^verbatim>\<open>csv.Error\<close>. The writer
  writes \<^verbatim>\<open>None\<close> as the empty string and every other value as its \<^verbatim>\<open>str\<close>.
\<close>

theorem export_round_trip:
  assumes "nfts \<noteq> []" and "flat_rows nfts = Inr rows"
  shows "\<exists>path w' s. export_to_csv nfts filename now w = Inr (Some path, w') \<and>
     files w' path = Some s \<and>
     csv_reader s =
       (if list_all (list_all within_limit) (table_of rows)
        then Inr (header_of rows # map (cells_of csv_cell (header_of rows)) rows)
        else Inl CsvError) \<and>
     (\<forall>v. csv_cell v = (if v = JNull then [] else py_str v))"
proof -
  have "csv_reader (concat (map csv_record (table_of rows))) =
      (if list_all (list_all within_limit) (table_of rows) then Inr (table_of rows)
       else Inl CsvError)"
    by (rule csv_reader_csv_records)
  then have "csv_reader (concat (map csv_record (table_of rows))) =
      (if list_all (list_all within_limit) (table_of rows)
       then Inr (header_of rows # map (cells_of csv_cell (header_of rows)) rows)
       else Inl CsvError)"
    by (simp add: table_of_def)
  with export_to_csv_table [OF assms, of filename now w] csv_cell_text show ?thesis
    by simp
qed

lemma ex_quoted_record:
  "flat_rows
    [[(''id'', JStr ''a,b''),
         (''content'', JDict [(''metadata'', JDict
            [(''name'', JStr [CHR ''x'', CHR 0x22, CHR 0x0A, CHR ''y'']),
             (''attributes'', JList [JDict [(''trait_type'', JStr ''Rarity''),
                                            (''value'', JNull)]])])])]] =
   Inr (projr (flat_rows
    [[(''id'', JStr ''a,b''),
         (''content'', JDict [(''metadata'', JDict
            [(''name'', JStr [CHR ''x'', CHR 0x22, CHR 0x0A, CHR ''y'']),
             (''attributes'', JList [JDict [(''trait_type'', JStr ''Rarity''),
                                            (''value'', JNull)]])])])]]))"
  by code_simp

lemma ex_quoted_record_table:
  "table_of (projr (flat_rows
    [[(''id'', JStr ''a,b''),
         (''content'', JDict [(''metadata'', JDict
            [(''name'', JStr [CHR ''x'', CHR 0x22, CHR 0x0A, CHR ''y'']),
             (''attributes'', JList [JDict [(''trait_type'', JStr ''Rarity''),
                                            (''value'', JNull)]])])])]])) =
     [[''animation_url'', ''delegated'', ''description'', ''external_url'', ''frozen'',
       ''image'', ''mint_address'', ''name'', ''owner'', ''royalty_locked'',
       ''royalty_percent'', ''supply_edition_nonce'', ''supply_print_current_supply'',
       ''supply_print_max_supply'', ''symbol'', ''trait_Rarity''],
      [[], ''False'', [], [], ''False'', [], ''a,b'', [CHR ''x'', CHR 0x22, CHR 0x0A, CHR ''y''],
       [], ''False'', ''0'', [], ''0'', ''0'', [], []]]"
  by code_simp

lemma ex_quoted_record_limit:
  "list_all (list_all within_limit)
     [[''animation_url'', ''delegated'', ''description'', ''external_url'', ''frozen'',
       ''image'', ''mint_address'', ''name'', ''owner'', ''royalty_locked'',
       ''royalty_percent'', ''supply_edition_nonce'', ''supply_print_current_supply'',
       ''supply_print_max_supply'', ''symbol'', ''trait_Rarity''],
      [[], ''False'', [], [], ''False'', [], ''a,b'', [CHR ''x'', CHR 0x22, CHR 0x0A, CHR ''y''],
       [], ''False'', ''0'', [], ''0'', ''0'', [], []]]"
  by code_simp

theorem export_round_trip_witness:
  "[[(''id'', JStr ''a,b''),
         (''content'', JDict [(''metadata'', JDict
            [(''name'', JStr [CHR ''x'', CHR 0x22, CHR 0x0A, CHR ''y'']),
             (''attributes'', JList [JDict [(''trait_type'', JStr ''Rarity''),
                                            (''value'', JNull)]])])])]] \<noteq> [] \<and>
   flat_rows
    [[(''id'', JStr ''a,b''),
         (''content'', JDict [(''metadata'', JDict
            [(''name'', JStr [CHR ''x'', CHR 0x22, CHR 0x0A, CHR ''y'']),
             (''attributes'', JList [JDict [(''trait_type'', JStr ''Rarity''),
                                            (''value'', JNull)]])])])]] =
   Inr (projr (flat_rows
    [[(''id'', JStr ''a,b''),
         (''content'', JDict [(''metadata'', JDict
            [(''name'', JStr [CHR ''x'', CHR 0x22, CHR 0x0A, CHR ''y'']),
             (''attributes'', JList [JDict [(''trait_type'', JStr ''Rarity''),
                                            (''value'', JNull)]])])])]])) \<and>
   list_all (list_all within_limit) (table_of (projr (flat_rows
    [[(''id'', JStr ''a,b''),
         (''content'', JDict [(''metadata'', JDict
            [(''name'', JStr [CHR ''x'', CHR 0x22, CHR 0x0A, CHR ''y'']),
             (''attributes'', JList [JDict [(''trait_type'', JStr ''Rarity''),
                                            (''value'', JNull)]])])])]]))) \<and>
   (\<exists>path w' s.
      export_to_csv
        [[(''id'', JStr ''a,b''),
         (''content'', JDict [(''metadata'', JDict
            [(''name'', JStr [CHR ''x'', CHR 0x22, CHR 0x0A, CHR ''y'']),
             (''attributes'', JList [JDict [(''trait_type'', JStr ''Rarity''),
                                            (''value'', JNull)]])])])]]
        (Some ''out.csv'') [] \<lparr>files = Map.empty, warnings = []\<rparr> = Inr (Some path, w') \<and>
      files w' path = Some s \<and>
      csv_reader s =
      Inr [[''animation_url'', ''delegated'', ''description'', ''external_url'', ''frozen'',
       ''image'', ''mint_address'', ''name'', ''owner'', ''royalty_locked'',
       ''royalty_percent'', ''supply_edition_nonce'', ''supply_print_current_supply'',
       ''supply_print_max_supply'', ''symbol'', ''trait_Rarity''],
      [[], ''False'', [], [], ''False'', [], ''a,b'', [CHR ''x'', CHR 0x22, CHR 0x0A, CHR ''y''],
       [], ''False'', ''0'', [], ''0'', ''0'', [], []]])"
proof -
  have n: "[[(''id'', JStr ''a,b''),
         (''content'', JDict [(''metadata'', JDict
            [(''name'', JStr [CHR ''x'', CHR 0x22, CHR 0x0A, CHR ''y'']),
             (''attributes'', JList [JDict [(''trait_type'', JStr ''Rarity''),
                                            (''value'', JNull)]])])])]] \<noteq> []"
    by simp
  have l: "list_all (list_all within_limit) (table_of (projr (flat_rows
    [[(''id'', JStr ''a,b''),
         (''content'', JDict [(''metadata'', JDict
            [(''name'', JStr [CHR ''x'', CHR 0x22, CHR 0x0A, CHR ''y'']),
             (''attributes'', JList [JDict [(''trait_type'', JStr ''Rarity''),
                                            (''value'', JNull)]])])])]])))"
    unfolding ex_quoted_record_table by (rule ex_quoted_record_limit)
  have t: "header_of (projr (flat_rows
    [[(''id'', JStr ''a,b''),
         (''content'', JDict [(''metadata'', JDict
            [(''name'', JStr [CHR ''x'', CHR 0x22, CHR 0x0A, CHR ''y'']),
             (''attributes'', JList [JDict [(''trait_type'', JStr ''Rarity''),
                                            (''value'', JNull)]])])])]])) #
      map (cells_of csv_cell (header_of (projr (flat_rows
    [[(''id'', JStr ''a,b''),
         (''content'', JDict [(''metadata'', JDict
            [(''name'', JStr [CHR ''x'', CHR 0x22, CHR 0x0A, CHR ''y'']),
             (''attributes'', JList [JDict [(''trait_type'', JStr ''Rarity''),
                                            (''value'', JNull)]])])])]])))) (projr (flat_rows
    [[(''id'', JStr ''a,b''),
         (''content'', JDict [(''metadata'', JDict
            [(''name'', JStr [CHR ''x'', CHR 0x22, CHR 0x0A, CHR ''y'']),
             (''attributes'', JList [JDict [(''trait_type'', JStr ''Rarity''),
                                            (''value'', JNull)]])])])]])) =
     [[''animation_url'', ''delegated'', ''description'', ''external_url'', ''frozen'',
       ''image'', ''mint_address'', ''name'', ''owner'', ''royalty_locked'',
       ''royalty_percent'', ''supply_edition_nonce'', ''supply_print_current_supply'',
       ''supply_print_max_supply'', ''symbol'', ''trait_Rarity''],
      [[], ''False'', [], [], ''False'', [], ''a,b'', [CHR ''x'', CHR 0x22, CHR 0x0A, CHR ''y''],
       [], ''False'', ''0'', [], ''0'', ''0'', [], []]]"
    using ex_quoted_record_table unfolding table_of_def .
  note inst = export_round_trip [OF n ex_quoted_record, of "Some ''out.csv''" "[]"
      "\<lparr>files = Map.empty, warnings = []\<rparr>", unfolded t]
  then have "\<exists>path w' s.
      export_to_csv
        [[(''id'', JStr ''a,b''),
         (''content'', JDict [(''metadata'', JDict
            [(''name'', JStr [CHR ''x'', CHR 0x22, CHR 0x0A, CHR ''y'']),
             (''attributes'', JList [JDict [(''trait_type'', JStr ''Rarity''),
                                            (''value'', JNull)]])])])]]
        (Some ''out.csv'') [] \<lparr>files = Map.empty, warnings = []\<rparr> = Inr (Some path, w') \<and>
      files w' path = Some s \<and>
      csv_reader s =
      Inr [[''animation_url'', ''delegated'', ''description'', ''external_url'', ''frozen'',
       ''image'', ''mint_address'', ''name'', ''owner'', ''royalty_locked'',
       ''royalty_percent'', ''supply_edition_nonce'', ''supply_print_current_supply'',
       ''supply_print_max_supply'', ''symbol'', ''trait_Rarity''],
      [[], ''False'', [], [], ''False'', [], ''a,b'', [CHR ''x'', CHR 0x22, CHR 0x0A, CHR ''y''],
       [], ''False'', ''0'', [], ''0'', ''0'', [], []]]"
    by (simp only: l if_True) blast
  with n ex_quoted_record l show ?thesis by blast
qed
end
